theory Spec2Isabelle
  imports Main
begin

text \<open>
  A shallow embedding of the linked-issue JQL function: a Forge resolver that takes a
  relationship mode and an inner query, retrieves the seed issues of the inner query
  from the search service, walks the relationship from each seed issue and returns a
  JQL fragment over the keys it finds. The definitions follow the JavaScript source
  function by function and keep its names; the properties of the specification are
  proved in the last section.
\<close>

section \<open>Strings\<close>

text \<open>
  A JavaScript string is a sequence of UTF-16 code units. The model takes the code
  units \<open>0\<close> .. \<open>255\<close>, the Latin-1 range, which is the type \<open>char\<close>: a HOL string is
  a JavaScript string of such code units, \<open>CHR n\<close> being the code unit \<open>n\<close>. The
  string primitives the program calls are written out for that range.

  \<^item> \<open>trim\<close> and the regular-expression class \<open>\s\<close> take the white space and the line
    terminators of ECMAScript; in the range these are tab, line feed, vertical tab,
    form feed, carriage return, space and the no-break space \<open>U+00A0\<close>.
  \<^item> The class \<open>.\<close> excludes the line terminators, in the range line feed and
    carriage return.
  \<^item> \<open>toLowerCase\<close> maps \<open>A\<close> .. \<open>Z\<close> to \<open>a\<close> .. \<open>z\<close> and the capital letters
    \<open>U+00C0\<close> .. \<open>U+00DE\<close>, without the multiplication sign \<open>U+00D7\<close>, to
    \<open>U+00E0\<close> .. \<open>U+00FE\<close>; every other code unit of the range is its own lower case.
  \<^item> Under the flag \<open>i\<close> a regular expression compares the upper case of the code
    units (\<open>Canonicalize\<close>): \<open>a\<close> .. \<open>z\<close> go to \<open>A\<close> .. \<open>Z\<close> and \<open>U+00E0\<close> ..
    \<open>U+00FE\<close>, without the division sign \<open>U+00F7\<close>, to \<open>U+00C0\<close> .. \<open>U+00DE\<close>. The
    sharp s is kept, since its upper case is two code units. The upper cases of the
    micro sign \<open>U+00B5\<close> and of \<open>U+00FF\<close> lie outside the range and are the upper case
    of no other code unit of the range, so \<open>upperChar\<close> keeps these two as well:
    whether two code units of the range have the same upper case is not changed by it.

  Characters that a string literal of the theory cannot hold are written by code:
  \<open>CHR 0x22\<close> is the double quote, \<open>CHR 0x27\<close> the single quote, \<open>CHR 0x5C\<close> the
  backslash and \<open>CHR 0xA0\<close> the no-break space.
\<close>

definition isSpace :: "char \<Rightarrow> bool" where
  "isSpace c = (c = CHR 0x09 \<or> c = CHR 0x0A \<or> c = CHR 0x0B \<or> c = CHR 0x0C
                \<or> c = CHR 0x0D \<or> c = CHR 0x20 \<or> c = CHR 0xA0)"

definition isLineTerminator :: "char \<Rightarrow> bool" where
  "isLineTerminator c = (c = CHR 0x0A \<or> c = CHR 0x0D)"

definition isUpper :: "char \<Rightarrow> bool" where
  "isUpper c =
     ((65 \<le> (of_char c :: nat) \<and> (of_char c :: nat) \<le> 90)
      \<or> (192 \<le> (of_char c :: nat) \<and> (of_char c :: nat) \<le> 222 \<and> (of_char c :: nat) \<noteq> 215))"

definition isLower :: "char \<Rightarrow> bool" where
  "isLower c =
     ((97 \<le> (of_char c :: nat) \<and> (of_char c :: nat) \<le> 122)
      \<or> (224 \<le> (of_char c :: nat) \<and> (of_char c :: nat) \<le> 254 \<and> (of_char c :: nat) \<noteq> 247))"

definition lowerChar :: "char \<Rightarrow> char" where
  "lowerChar c = (if isUpper c then char_of ((of_char c :: nat) + 32) else c)"

definition upperChar :: "char \<Rightarrow> char" where
  "upperChar c = (if isLower c then char_of ((of_char c :: nat) - 32) else c)"

definition toLowerCase :: "string \<Rightarrow> string" where
  "toLowerCase s = map lowerChar s"

definition trim :: "string \<Rightarrow> string" where
  "trim s = rev (dropWhile isSpace (rev (dropWhile isSpace s)))"

fun join :: "string \<Rightarrow> string list \<Rightarrow> string" where
  "join sep [] = []"
| "join sep [x] = x"
| "join sep (x # y # ys) = x @ sep @ join sep (y # ys)"

text \<open>\<open>s.includes(t)\<close>: \<open>t\<close> occurs in \<open>s\<close> as a contiguous run.\<close>

fun startsWith :: "string \<Rightarrow> string \<Rightarrow> bool" where
  "startsWith s [] = True"
| "startsWith [] (y # ys) = False"
| "startsWith (x # xs) (y # ys) = (x = y \<and> startsWith xs ys)"

fun str_includes :: "string \<Rightarrow> string \<Rightarrow> bool" where
  "str_includes [] t = (t = [])"
| "str_includes (x # xs) t = (startsWith (x # xs) t \<or> str_includes xs t)"

text \<open>Decimal rendering of a number inside a template literal.\<close>

fun digits :: "nat \<Rightarrow> string" where
  "digits n = (if n < 10 then [char_of (48 + n)] else digits (n div 10) @ [char_of (48 + n mod 10)])"

declare digits.simps [simp del]

section \<open>Key sets\<close>

text \<open>
  A JavaScript \<open>Set\<close> of keys enumerates its members in insertion order and holds each
  member once: it is a list without repetitions, \<open>add\<close> appends a key that is not yet a
  member, and \<open>Array.from\<close> is the list itself.
\<close>

type_synonym keyset = "string list"

definition set_add :: "keyset \<Rightarrow> string \<Rightarrow> keyset" where
  "set_add out k = (if k \<in> set out then out else out @ [k])"

definition new_Set :: "string list \<Rightarrow> keyset" where
  "new_Set xs = fold (\<lambda>k out. set_add out k) xs []"

section \<open>Fragment builder\<close>

definition SAFE_NO_MATCH :: string where
  "SAFE_NO_MATCH = ''issuekey = '' @ [CHR 0x22] @ ''__NO_MATCH__'' @ [CHR 0x22]"

text \<open>\<open>String(k).replace(/'/g, "\\'")\<close>: every single quote becomes backslash, quote.\<close>

definition replaceQuotes :: "string \<Rightarrow> string" where
  "replaceQuotes k = concat (map (\<lambda>c. if c = CHR 0x27 then [CHR 0x5C, CHR 0x27] else [c]) k)"

definition quoteKey :: "string \<Rightarrow> string" where
  "quoteKey k = [CHR 0x27] @ replaceQuotes k @ [CHR 0x27]"

definition buildIssueKeySetJql :: "keyset \<Rightarrow> bool \<Rightarrow> string" where
  "buildIssueKeySetJql keys negate =
     (if keys = [] then
        (if negate then ''issuekey != '' @ [CHR 0x22] @ ''__NO_MATCH__'' @ [CHR 0x22]
         else SAFE_NO_MATCH)
      else ''issuekey '' @ (if negate then ''not in'' else ''in'') @ '' (''
             @ join '', '' (map quoteKey keys) @ '')'')"

section \<open>Seed items\<close>

text \<open>
  A seed item as the search service returns it, with the fields the extractors read. A
  field the service may leave out is an \<open>option\<close>; a key is read through optional
  chaining, so \<open>outwardIssue\<close> is \<open>l?.outwardIssue?.key\<close>, \<open>parent_key\<close> is
  \<open>p?.key\<close>, \<open>issuetype\<close> is \<open>p?.fields?.issuetype\<close>, and the lists
  \<open>issuelinks\<close> and \<open>subtasks\<close> are \<open>i?.fields?.issuelinks || []\<close> and
  \<open>i?.fields?.subtasks || []\<close> (a missing list reads as the empty one).
\<close>

record link_type =
  name :: "string option"
  inward :: "string option"
  outward :: "string option"

record issue_link =
  ltype :: "link_type option"
  outwardIssue :: "string option"
  inwardIssue :: "string option"

record issue_type =
  hierarchyLevel :: "int option"
  type_name :: "string option"

record parent_ref =
  parent_key :: "string option"
  issuetype :: "issue_type option"

record issue =
  issuelinks :: "issue_link list"
  parent :: "parent_ref option"
  subtasks :: "string option list"

text \<open>\<open>x || ''\<close> on an optional string, and the truthiness of an optional key.\<close>

definition str_or_empty :: "string option \<Rightarrow> string" where
  "str_or_empty x = (case x of None \<Rightarrow> [] | Some s \<Rightarrow> s)"

definition truthy :: "string option \<Rightarrow> bool" where
  "truthy x = (case x of None \<Rightarrow> False | Some s \<Rightarrow> s \<noteq> [])"

text \<open>\<open>if (k) out.add(k)\<close>\<close>

definition add_key :: "keyset \<Rightarrow> string option \<Rightarrow> keyset" where
  "add_key out k = (case k of None \<Rightarrow> out | Some s \<Rightarrow> if s \<noteq> [] then set_add out s else out)"

section \<open>Relationship extractors\<close>

datatype direction = Inward | Outward

record link_filter =
  typeHint :: string
  direction :: "direction option"

definition needFilter :: "link_filter option \<Rightarrow> bool" where
  "needFilter linkFilter =
     (case linkFilter of None \<Rightarrow> False | Some f \<Rightarrow> typeHint f \<noteq> [] \<or> direction f \<noteq> None)"

definition hintOf :: "link_filter option \<Rightarrow> string" where
  "hintOf linkFilter =
     trim (toLowerCase (case linkFilter of None \<Rightarrow> [] | Some f \<Rightarrow> typeHint f))"

definition wantInward :: "link_filter option \<Rightarrow> bool" where
  "wantInward linkFilter = (case linkFilter of None \<Rightarrow> False | Some f \<Rightarrow> direction f = Some Inward)"

definition wantOutward :: "link_filter option \<Rightarrow> bool" where
  "wantOutward linkFilter = (case linkFilter of None \<Rightarrow> False | Some f \<Rightarrow> direction f = Some Outward)"

text \<open>The three display strings of a link's type, lowercased and trimmed.\<close>

definition tName :: "issue_link \<Rightarrow> string" where
  "tName l = trim (toLowerCase (str_or_empty (case ltype l of None \<Rightarrow> None | Some t \<Rightarrow> name t)))"

definition tIn :: "issue_link \<Rightarrow> string" where
  "tIn l = trim (toLowerCase (str_or_empty (case ltype l of None \<Rightarrow> None | Some t \<Rightarrow> inward t)))"

definition tOut :: "issue_link \<Rightarrow> string" where
  "tOut l = trim (toLowerCase (str_or_empty (case ltype l of None \<Rightarrow> None | Some t \<Rightarrow> outward t)))"

definition pass :: "link_filter option \<Rightarrow> issue_link \<Rightarrow> bool" where
  "pass linkFilter l =
     (if needFilter linkFilter then
        (if hintOf linkFilter \<noteq> [] then
           (tName l = hintOf linkFilter \<or> tIn l = hintOf linkFilter \<or> tOut l = hintOf linkFilter)
         else True)
      else True)"

text \<open>The body of the inner loop of \<open>extractLinkedIssueKeys\<close>, for one link.\<close>

definition linkStep :: "link_filter option \<Rightarrow> issue_link \<Rightarrow> keyset \<Rightarrow> keyset" where
  "linkStep linkFilter l out =
     (if pass linkFilter l then
        (let out1 =
               (if truthy (outwardIssue l) \<and>
                   (\<not> needFilter linkFilter \<or> wantOutward linkFilter
                    \<or> (\<not> wantInward linkFilter \<and> \<not> wantOutward linkFilter))
                then add_key out (outwardIssue l) else out)
         in (if truthy (inwardIssue l) \<and>
                (\<not> needFilter linkFilter \<or> wantInward linkFilter
                 \<or> (\<not> wantInward linkFilter \<and> \<not> wantOutward linkFilter))
             then add_key out1 (inwardIssue l) else out1))
      else out)"

definition extractLinkedIssueKeys :: "issue list \<Rightarrow> link_filter option \<Rightarrow> keyset" where
  "extractLinkedIssueKeys seeds linkFilter =
     fold (\<lambda>i out. fold (linkStep linkFilter) (issuelinks i) out) seeds []"

definition extractParentKeys :: "issue list \<Rightarrow> keyset" where
  "extractParentKeys seeds =
     fold (\<lambda>i out. case parent i of None \<Rightarrow> out | Some p \<Rightarrow> add_key out (parent_key p)) seeds []"

text \<open>
  The test of \<open>extractParentEpicKeys\<close> on the parent's issue type \<open>t\<close>:
  \<open>t?.hierarchyLevel === 1 || String(t?.name || '').toLowerCase() === 'epic' || !t\<close>.
\<close>

definition epicType :: "issue_type option \<Rightarrow> bool" where
  "epicType t =
     ((case t of None \<Rightarrow> False | Some ty \<Rightarrow> hierarchyLevel ty = Some 1)
      \<or> toLowerCase (str_or_empty (case t of None \<Rightarrow> None | Some ty \<Rightarrow> type_name ty)) = ''epic''
      \<or> t = None)"

definition epicStep :: "issue \<Rightarrow> keyset \<Rightarrow> keyset" where
  "epicStep i out =
     (case parent i of
        None \<Rightarrow> out
      | Some p \<Rightarrow>
          if \<not> truthy (parent_key p) then out
          else if epicType (issuetype p) then add_key out (parent_key p) else out)"

definition extractParentEpicKeys :: "issue list \<Rightarrow> keyset" where
  "extractParentEpicKeys seeds = fold epicStep seeds []"

definition extractSubtaskKeys :: "issue list \<Rightarrow> keyset" where
  "extractSubtaskKeys seeds =
     fold (\<lambda>i out. fold (\<lambda>s out'. add_key out' s) (subtasks i) out) seeds []"

section \<open>Regular expressions\<close>

text \<open>
  \<open>parseArg\<close> decodes its argument with one regular expression. The constructs that
  expression uses are embedded as a datatype, and \<open>rmatch\<close> is the backtracking matcher
  of ECMAScript for them, in continuation-passing style: \<open>rmatch inp r s c k\<close> matches
  \<open>r\<close> at the front of the rest \<open>s\<close> of the input \<open>inp\<close> with the captures \<open>c\<close>, and
  hands every way of doing so, in the order of priority, to the continuation \<open>k\<close> until
  one succeeds. Literals are compared under the flag \<open>i\<close> (both sides canonicalised to
  upper case); the three character classes hold no letters and are unaffected by it.
\<close>

datatype cls = Space | NotBracketDash | Dot

fun cls_match :: "cls \<Rightarrow> char \<Rightarrow> bool" where
  "cls_match Space x = isSpace x"
| "cls_match NotBracketDash x = (x \<noteq> CHR '']'' \<and> x \<noteq> CHR ''-'')"
| "cls_match Dot x = (\<not> isLineTerminator x)"

datatype re =
    Bos
  | Eos
  | Lit string
  | Star cls
  | PlusLazy cls
  | Plus cls
  | Seq re re
  | Alt re re
  | Opt re
  | Grp nat re

type_synonym caps = "nat \<rightharpoonup> string"

fun rmatch :: "string \<Rightarrow> re \<Rightarrow> string \<Rightarrow> caps \<Rightarrow> (string \<Rightarrow> caps \<Rightarrow> caps option) \<Rightarrow> caps option" where
  "rmatch inp Bos s c k = (if length s = length inp then k s c else None)"
| "rmatch inp Eos s c k = (if s = [] then k s c else None)"
| "rmatch inp (Lit l) s c k =
     (if length l \<le> length s \<and> map upperChar (take (length l) s) = map upperChar l
      then k (drop (length l) s) c else None)"
| "rmatch inp (Star cl) [] c k = k [] c"
| "rmatch inp (Star cl) (x # xs) c k =
     (if cls_match cl x then
        (case rmatch inp (Star cl) xs c k of Some r \<Rightarrow> Some r | None \<Rightarrow> k (x # xs) c)
      else k (x # xs) c)"
| "rmatch inp (PlusLazy cl) [] c k = None"
| "rmatch inp (PlusLazy cl) (x # xs) c k =
     (if cls_match cl x then
        (case k xs c of Some r \<Rightarrow> Some r | None \<Rightarrow> rmatch inp (PlusLazy cl) xs c k)
      else None)"
| "rmatch inp (Plus cl) [] c k = None"
| "rmatch inp (Plus cl) (x # xs) c k =
     (if cls_match cl x then rmatch inp (Star cl) xs c k else None)"
| "rmatch inp (Seq a b) s c k = rmatch inp a s c (\<lambda>s' c'. rmatch inp b s' c' k)"
| "rmatch inp (Alt a b) s c k =
     (case rmatch inp a s c k of Some r \<Rightarrow> Some r | None \<Rightarrow> rmatch inp b s c k)"
| "rmatch inp (Opt a) s c k =
     (case rmatch inp a s c (\<lambda>s' c'. if length s' = length s then None else k s' c') of
        Some r \<Rightarrow> Some r
      | None \<Rightarrow> k s c)"
| "rmatch inp (Grp n a) s c k =
     rmatch inp a s c (\<lambda>s' c'. k s' (c'(n \<mapsto> take (length s - length s') s)))"

text \<open>
  \<open>String.prototype.match\<close> without the flag \<open>g\<close>: the match is tried at every start
  position from the left, and the first success gives the captures.
\<close>

fun exec_from :: "string \<Rightarrow> re \<Rightarrow> string \<Rightarrow> caps option" where
  "exec_from inp r [] = rmatch inp r [] Map.empty (\<lambda>s' c'. Some c')"
| "exec_from inp r (x # xs) =
     (case rmatch inp r (x # xs) Map.empty (\<lambda>s' c'. Some c') of
        Some c \<Rightarrow> Some c
      | None \<Rightarrow> exec_from inp r xs)"

definition str_match :: "string \<Rightarrow> re \<Rightarrow> caps option" where
  "str_match s r = exec_from s r s"

fun seqs :: "re list \<Rightarrow> re" where
  "seqs [] = Lit []"
| "seqs [r] = r"
| "seqs (r # r' # rs) = Seq r (seqs (r' # rs))"

fun alts :: "re list \<Rightarrow> re" where
  "alts [] = Lit []"
| "alts [r] = r"
| "alts (r # r' # rs) = Alt r (alts (r' # rs))"

section \<open>Argument parser\<close>

text \<open>
  The pattern of \<open>parseArg\<close>:
  \<^verbatim>\<open>/^(parent|epic-of|linked|subtask|substask)(?:\s*\[\s*([^\]\-]+?)(?:\s*->\s*(inward|outward))?\s*\])?\s*:\s*(.+)$/i\<close>
\<close>

definition argPattern :: re where
  "argPattern =
     seqs [Bos,
           Grp 1 (alts [Lit ''parent'', Lit ''epic-of'', Lit ''linked'', Lit ''subtask'',
                        Lit ''substask'']),
           Opt (seqs [Star Space, Lit ''['', Star Space,
                      Grp 2 (PlusLazy NotBracketDash),
                      Opt (seqs [Star Space, Lit ''->'', Star Space,
                                 Grp 3 (alts [Lit ''inward'', Lit ''outward''])]),
                      Star Space, Lit '']'']),
           Star Space, Lit '':'', Star Space,
           Grp 4 (Plus Dot),
           Eos]"

record parsed =
  mode :: string
  linkFilter :: "link_filter option"
  innerJql :: string

text \<open>\<open>m[n] || ''\<close>\<close>

definition grp :: "caps \<Rightarrow> nat \<Rightarrow> string" where
  "grp m n = str_or_empty (m n)"

definition parseArg :: "string option \<Rightarrow> parsed" where
  "parseArg raw =
     (let s = trim (str_or_empty raw) in
      if s = [] then \<lparr>mode = ''linked'', linkFilter = None, innerJql = []\<rparr>
      else
        (case str_match s argPattern of
           Some m \<Rightarrow>
             (let modeRaw = toLowerCase (grp m 1);
                  mode' = (if modeRaw = ''substask'' then ''subtask'' else modeRaw);
                  typeHint' = trim (grp m 2);
                  direction' = toLowerCase (grp m 3);
                  innerJql' = trim (grp m 4);
                  linkFilter' =
                    (if mode' = ''linked'' \<and> (typeHint' \<noteq> [] \<or> direction' \<noteq> [])
                     then Some \<lparr>typeHint = typeHint',
                                direction = (if direction' = ''inward'' then Some Inward
                                             else if direction' = ''outward'' then Some Outward
                                             else None)\<rparr>
                     else None)
              in \<lparr>mode = mode', linkFilter = linkFilter', innerJql = innerJql'\<rparr>)
         | None \<Rightarrow> \<lparr>mode = ''linked'', linkFilter = None, innerJql = s\<rparr>))"

section \<open>Seed retriever\<close>

text \<open>
  The search service is outside the program. A request is what \<open>requestJira\<close> is given:
  the body of the POST to the cursor-based endpoint \<open>/rest/api/3/search/jql\<close>, or the
  query parameters of the GET to the offset-based endpoint \<open>/rest/api/3/search\<close>. A
  response is either a rejected call (the awaited promise throws an error with a
  message) or an HTTP response with its status, its \<open>ok\<close> flag, its text and the
  outcome of \<open>res.json()\<close> (a parsed page, or the message of the error it throws). The
  service is any function from the number of calls made before and the request to a
  response, so it may answer the same request differently at different times.
\<close>

datatype request =
    EnhancedSearch string int "string list" "string option"
  | LegacySearch string int int "string list"

record search_data =
  data_issues :: "issue list"
  data_nextPageToken :: "string option"
  data_isLast :: "bool option"
  data_maxResults :: "int option"
  data_total :: "int option"

datatype response =
    Rejected string
  | Response nat bool string "string + search_data"

type_synonym service = "nat \<Rightarrow> request \<Rightarrow> response"

datatype error = Error string

fun message :: "error \<Rightarrow> string" where
  "message (Error m) = m"

text \<open>
  The local state of \<open>searchSeedIssues\<close>: the array \<open>issues\<close> both protocols push to,
  and the calls made to the service so far.
\<close>

record retrieval =
  issues :: "issue list"
  calls :: "request list"

text \<open>\<open>x || d\<close> on an optional number: \<open>d\<close> when \<open>x\<close> is missing or zero.\<close>

definition num_or :: "int option \<Rightarrow> int \<Rightarrow> int" where
  "num_or x d = (case x of None \<Rightarrow> d | Some v \<Rightarrow> if v = 0 then d else v)"

text \<open>
  The loop of the \<open>try\<close> block, with \<open>n\<close> the pages left (\<open>pageCap - page\<close>) and
  \<open>tok\<close> the variable \<open>nextPageToken\<close>. It ends normally (\<open>Inr ()\<close>, the
  \<open>return issues\<close>) or with a thrown error; the state is kept in both cases.
\<close>

fun enhancedPages ::
  "service \<Rightarrow> string \<Rightarrow> string list \<Rightarrow> int \<Rightarrow> nat \<Rightarrow> string option \<Rightarrow> retrieval
     \<Rightarrow> (error + unit) \<times> retrieval" where
  "enhancedPages svc q wantedFields pageSize 0 tok st = (Inr (), st)"
| "enhancedPages svc q wantedFields pageSize (Suc n) tok st =
     (let req = EnhancedSearch q pageSize wantedFields (if truthy tok then tok else None);
          st1 = st\<lparr>calls := calls st @ [req]\<rparr>
      in case svc (length (calls st)) req of
           Rejected msg \<Rightarrow> (Inl (Error msg), st1)
         | Response status ok txt js \<Rightarrow>
             if status = 404 then (Inl (Error ''ENHANCED_JQL_NOT_AVAILABLE''), st1)
             else if \<not> ok then
               (Inl (Error (''Enhanced search failed: '' @ digits status @ '' '' @ txt)), st1)
             else
               (case js of
                  Inl msg \<Rightarrow> (Inl (Error msg), st1)
                | Inr d \<Rightarrow>
                    (let st2 = st1\<lparr>issues := issues st1 @ data_issues d\<rparr>
                     in if \<not> truthy (data_nextPageToken d) \<or> data_isLast d = Some True
                        then (Inr (), st2)
                        else enhancedPages svc q wantedFields pageSize n (data_nextPageToken d) st2)))"

text \<open>The loop of the legacy fallback, with \<open>n\<close> the pages left.\<close>

fun legacyPages ::
  "service \<Rightarrow> string \<Rightarrow> string list \<Rightarrow> int \<Rightarrow> nat \<Rightarrow> int \<Rightarrow> retrieval
     \<Rightarrow> (error + unit) \<times> retrieval" where
  "legacyPages svc q wantedFields pageSize 0 startAt st = (Inr (), st)"
| "legacyPages svc q wantedFields pageSize (Suc n) startAt st =
     (let req = LegacySearch q startAt pageSize wantedFields;
          st1 = st\<lparr>calls := calls st @ [req]\<rparr>
      in case svc (length (calls st)) req of
           Rejected msg \<Rightarrow> (Inl (Error msg), st1)
         | Response status ok txt js \<Rightarrow>
             if \<not> ok then
               (Inl (Error (''Legacy search failed: '' @ digits status @ '' '' @ txt)), st1)
             else
               (case js of
                  Inl msg \<Rightarrow> (Inl (Error msg), st1)
                | Inr d \<Rightarrow>
                    (let st2 = st1\<lparr>issues := issues st1 @ data_issues d\<rparr>;
                         startAt' = startAt + num_or (data_maxResults d) pageSize
                     in if startAt' \<ge> num_or (data_total d) 0 then (Inr (), st2)
                        else legacyPages svc q wantedFields pageSize n startAt' st2)))"

text \<open>
  \<open>searchSeedIssues\<close> returns the seed items or the error it throws, and the calls it
  made.
\<close>

definition searchSeedIssues ::
  "service \<Rightarrow> string \<Rightarrow> string list \<Rightarrow> nat \<Rightarrow> int \<Rightarrow> (error + issue list) \<times> request list" where
  "searchSeedIssues svc q wantedFields pageCap pageSize =
     (case enhancedPages svc q wantedFields pageSize pageCap None \<lparr>issues = [], calls = []\<rparr> of
        (Inr u, st) \<Rightarrow> (Inr (issues st), calls st)
      | (Inl e, st) \<Rightarrow>
          if \<not> str_includes (message e) ''ENHANCED_JQL_NOT_AVAILABLE'' then (Inl e, calls st)
          else
            (case legacyPages svc q wantedFields pageSize pageCap 0 st of
               (Inr u, st') \<Rightarrow> (Inr (issues st'), calls st')
             | (Inl e', st') \<Rightarrow> (Inl e', calls st')))"

section \<open>Resolver entry point\<close>

text \<open>
  The invocation the host passes: \<open>args\<close> may be missing, and so may its \<open>clause\<close>,
  the clause's \<open>operator\<close> and its \<open>arguments\<close>.
\<close>

record clause_obj =
  operator :: "string option"
  arguments :: "string list option"

record invocation =
  clause :: "clause_obj option"

record fragment =
  jql :: string

definition operatorOf :: "invocation option \<Rightarrow> string" where
  "operatorOf args =
     (case args of
        None \<Rightarrow> ''in''
      | Some a \<Rightarrow>
          (case clause a of
             None \<Rightarrow> ''in''
           | Some cl \<Rightarrow> (if truthy (operator cl) then str_or_empty (operator cl) else ''in'')))"

definition arg0Of :: "invocation option \<Rightarrow> string option" where
  "arg0Of args =
     (case args of
        None \<Rightarrow> None
      | Some a \<Rightarrow>
          (case clause a of
             None \<Rightarrow> None
           | Some cl \<Rightarrow>
               (case arguments cl of
                  None \<Rightarrow> None
                | Some [] \<Rightarrow> None
                | Some (x # xs) \<Rightarrow> Some x)))"

definition wantedFieldsOf :: "string list" where
  "wantedFieldsOf = new_Set [''issuelinks'', ''parent'', ''issuetype'', ''subtasks'']"

text \<open>The \<open>switch (mode)\<close>.\<close>

definition extractKeys :: "string \<Rightarrow> link_filter option \<Rightarrow> issue list \<Rightarrow> keyset" where
  "extractKeys m lf seedIssues =
     (if m = ''parent'' then extractParentKeys seedIssues
      else if m = ''epic-of'' then extractParentEpicKeys seedIssues
      else if m = ''subtask'' then extractSubtaskKeys seedIssues
      else extractLinkedIssueKeys seedIssues lf)"

text \<open>\<open>new Set(Array.from(keys).slice(0, 1000))\<close>\<close>

definition limitedKeysOf :: "keyset \<Rightarrow> keyset" where
  "limitedKeysOf keys = new_Set (take 1000 keys)"

text \<open>
  The body of the \<open>try\<close> block of \<open>issuesWithText\<close>: the fragment it returns or the
  error thrown inside it, and the calls made to the service.
\<close>

definition issuesWithText_try ::
  "service \<Rightarrow> invocation option \<Rightarrow> (error + fragment) \<times> request list" where
  "issuesWithText_try svc args =
     (let p = parseArg (arg0Of args) in
      if innerJql p = [] then (Inr \<lparr>jql = SAFE_NO_MATCH\<rparr>, [])
      else
        (case searchSeedIssues svc (innerJql p) wantedFieldsOf 4 100 of
           (Inl e, log) \<Rightarrow> (Inl e, log)
         | (Inr seedIssues, log) \<Rightarrow>
             (let keys = extractKeys (mode p) (linkFilter p) seedIssues;
                  limitedKeys = limitedKeysOf keys;
                  negate = (operatorOf args \<noteq> ''in'')
              in (Inr \<lparr>jql = buildIssueKeySetJql limitedKeys negate\<rparr>, log))))"

text \<open>\<open>issuesWithText\<close>: the \<open>catch\<close> turns every error into the safe fragment.\<close>

definition issuesWithText :: "service \<Rightarrow> invocation option \<Rightarrow> fragment \<times> request list" where
  "issuesWithText svc args =
     (case issuesWithText_try svc args of
        (Inr r, log) \<Rightarrow> (r, log)
      | (Inl err, log) \<Rightarrow> (\<lparr>jql = SAFE_NO_MATCH\<rparr>, log))"

section \<open>The variant without relationship filter\<close>

text \<open>
  The repository holds the resolver twice. The definitions above follow the file with
  the relationship filter. The file \<open>src/index.js\<close> is the variant without it: the
  fragment builder, the parent, epic and subtask extractors and the seed retriever are
  the same text, and it differs in the pattern of \<open>parseArg\<close>
  \<^verbatim>\<open>/^(epic-of|linked|subtasks-of|parent-of)\s*:\s*(.+)$/i\<close>,
  in the Linked extractor, which has no filter, and in the mode names of the
  \<open>switch\<close>. Its functions carry the suffix \<open>_index\<close>; its \<open>parseArg\<close> returns no
  link filter, which is \<open>None\<close> here.
\<close>

definition argPattern_index :: re where
  "argPattern_index =
     seqs [Bos,
           Grp 1 (alts [Lit ''epic-of'', Lit ''linked'', Lit ''subtasks-of'', Lit ''parent-of'']),
           Star Space, Lit '':'', Star Space,
           Grp 2 (Plus Dot),
           Eos]"

definition parseArg_index :: "string option \<Rightarrow> parsed" where
  "parseArg_index raw =
     (let s = trim (str_or_empty raw) in
      if s = [] then \<lparr>mode = ''linked'', linkFilter = None, innerJql = []\<rparr>
      else
        (case str_match s argPattern_index of
           Some m \<Rightarrow> \<lparr>mode = toLowerCase (grp m 1), linkFilter = None, innerJql = trim (grp m 2)\<rparr>
         | None \<Rightarrow> \<lparr>mode = ''linked'', linkFilter = None, innerJql = s\<rparr>))"

definition extractLinkedIssueKeys_index :: "issue list \<Rightarrow> keyset" where
  "extractLinkedIssueKeys_index seeds =
     fold (\<lambda>i out.
             fold (\<lambda>l out'. add_key (add_key out' (outwardIssue l)) (inwardIssue l))
               (issuelinks i) out)
       seeds []"

definition extractKeys_index :: "string \<Rightarrow> issue list \<Rightarrow> keyset" where
  "extractKeys_index m seedIssues =
     (if m = ''epic-of'' then extractParentEpicKeys seedIssues
      else if m = ''subtasks-of'' then extractSubtaskKeys seedIssues
      else if m = ''parent-of'' then extractParentKeys seedIssues
      else extractLinkedIssueKeys_index seedIssues)"

definition issuesWithText_try_index ::
  "service \<Rightarrow> invocation option \<Rightarrow> (error + fragment) \<times> request list" where
  "issuesWithText_try_index svc args =
     (let p = parseArg_index (arg0Of args) in
      if innerJql p = [] then (Inr \<lparr>jql = SAFE_NO_MATCH\<rparr>, [])
      else
        (case searchSeedIssues svc (innerJql p) wantedFieldsOf 4 100 of
           (Inl e, log) \<Rightarrow> (Inl e, log)
         | (Inr seedIssues, log) \<Rightarrow>
             (let keys = extractKeys_index (mode p) seedIssues;
                  limitedKeys = limitedKeysOf keys;
                  negate = (operatorOf args \<noteq> ''in'')
              in (Inr \<lparr>jql = buildIssueKeySetJql limitedKeys negate\<rparr>, log))))"

definition issuesWithText_index :: "service \<Rightarrow> invocation option \<Rightarrow> fragment \<times> request list" where
  "issuesWithText_index svc args =
     (case issuesWithText_try_index svc args of
        (Inr r, log) \<Rightarrow> (r, log)
      | (Inl err, log) \<Rightarrow> (\<lparr>jql = SAFE_NO_MATCH\<rparr>, log))"

section \<open>Specification-side notions and sample inputs\<close>



text \<open>
  What the specification says the extractors collect, in its own terms. A link filter
  asks for a side when it has a direction. It names a link type when its hint is not
  blank, and the hint then matches a link when, trimmed and lowercased, it equals the
  trimmed and lowercased display name, inward label or outward label of the link's type
  (a missing label reads as the empty string). A link gives a key when the filter's hint
  matches it and the key is the target of a side the filter does not exclude.
\<close>

definition requestedSide :: "link_filter option \<Rightarrow> direction option" where
  "requestedSide lf = (case lf of None \<Rightarrow> None | Some f \<Rightarrow> direction f)"

definition labelsOf :: "issue_link \<Rightarrow> string list" where
  "labelsOf l =
     (case ltype l of
        None \<Rightarrow> [[], [], []]
      | Some t \<Rightarrow> [str_or_empty (name t), str_or_empty (inward t), str_or_empty (outward t)])"

definition hintMatches :: "link_filter option \<Rightarrow> issue_link \<Rightarrow> bool" where
  "hintMatches lf l =
     (case lf of
        None \<Rightarrow> True
      | Some f \<Rightarrow>
          trim (toLowerCase (typeHint f)) = []
          \<or> trim (toLowerCase (typeHint f)) \<in> set (map (\<lambda>s. trim (toLowerCase s)) (labelsOf l)))"

definition linkedTarget :: "link_filter option \<Rightarrow> issue_link \<Rightarrow> string \<Rightarrow> bool" where
  "linkedTarget lf l k =
     (hintMatches lf l \<and> k \<noteq> [] \<and>
      ((outwardIssue l = Some k \<and> requestedSide lf \<noteq> Some Inward)
       \<or> (inwardIssue l = Some k \<and> requestedSide lf \<noteq> Some Outward)))"

text \<open>
  A seed item gives its parent's key as an epic when the parent is there with a key and
  its issue type is missing, or has hierarchy level 1, or is named \<open>epic\<close> in any case.
\<close>

definition epicParent :: "issue \<Rightarrow> string \<Rightarrow> bool" where
  "epicParent i k =
     (\<exists>p. parent i = Some p \<and> parent_key p = Some k \<and> k \<noteq> [] \<and>
        (issuetype p = None
         \<or> (\<exists>t. issuetype p = Some t \<and>
               (hierarchyLevel t = Some 1
                \<or> toLowerCase (str_or_empty (type_name t)) = ''epic''))))"

text \<open>
  The requests of the offset-based protocol as the specification describes them: from
  the call number \<open>i\<close> on, with \<open>n\<close> pages left and the offset \<open>off\<close>, a request is
  sent at the offset; after a successful page the offset grows by \<open>inc\<close> of the
  configured and the reported page size, and the requests go on while the offset is
  below the reported total and pages are left. The increment is a parameter:
  \<open>smallerOf\<close> is the one the specification words (the configured size, or the reported
  one if that is smaller), \<open>reportedOrConfigured\<close> takes the reported size whenever
  the service reports one other than zero.
\<close>

definition smallerOf :: "int \<Rightarrow> int option \<Rightarrow> int" where
  "smallerOf pageSize reported =
     (case reported of None \<Rightarrow> pageSize | Some m \<Rightarrow> if m < pageSize then m else pageSize)"

definition reportedOrConfigured :: "int \<Rightarrow> int option \<Rightarrow> int" where
  "reportedOrConfigured pageSize reported =
     (case reported of None \<Rightarrow> pageSize | Some m \<Rightarrow> if m = 0 then pageSize else m)"

definition reportedTotal :: "search_data \<Rightarrow> int" where
  "reportedTotal d = (case data_total d of None \<Rightarrow> 0 | Some t \<Rightarrow> t)"

fun expectedLegacyRequests ::
  "(int \<Rightarrow> int option \<Rightarrow> int) \<Rightarrow> service \<Rightarrow> nat \<Rightarrow> string \<Rightarrow> string list \<Rightarrow> int \<Rightarrow> nat \<Rightarrow> int
     \<Rightarrow> request list" where
  "expectedLegacyRequests inc svc i q flds pageSize 0 off = []"
| "expectedLegacyRequests inc svc i q flds pageSize (Suc n) off =
     LegacySearch q off pageSize flds #
       (case svc i (LegacySearch q off pageSize flds) of
          Response status ok txt (Inr d) \<Rightarrow>
            if ok \<and> off + inc pageSize (data_maxResults d) < reportedTotal d
            then expectedLegacyRequests inc svc (Suc i) q flds pageSize n
                   (off + inc pageSize (data_maxResults d))
            else []
        | _ \<Rightarrow> [])"

text \<open>An invocation object that lacks the clause, the operator or the arguments.\<close>

definition missingPart :: "invocation option \<Rightarrow> bool" where
  "missingPart args =
     (case args of
        None \<Rightarrow> True
      | Some a \<Rightarrow>
          (case clause a of
             None \<Rightarrow> True
           | Some cl \<Rightarrow> operator cl = None \<or> arguments cl = None))"

text \<open>
  The parts of the pattern of \<open>parseArg\<close>, named for the proofs: the arrow with its
  direction, what follows the type hint inside the brackets, and what follows the
  brackets.
\<close>

definition modeRe :: re where
  "modeRe = Grp 1 (alts [Lit ''parent'', Lit ''epic-of'', Lit ''linked'', Lit ''subtask'',
                         Lit ''substask''])"

definition arrowRe :: re where
  "arrowRe = seqs [Star Space, Lit ''->'', Star Space,
                   Grp 3 (alts [Lit ''inward'', Lit ''outward''])]"

definition afterHintRe :: re where
  "afterHintRe = seqs [Opt arrowRe, Star Space, Lit '']'']"

definition hintRe :: re where
  "hintRe = Seq (Star Space) (Seq (Grp 2 (PlusLazy NotBracketDash)) afterHintRe)"

definition tailRe :: re where
  "tailRe = seqs [Star Space, Lit '':'', Star Space, Grp 4 (Plus Dot), Eos]"

text \<open>
  The argument strings of the linked mode with a relationship filter, as the
  specification writes them: the mode word, the bracketed clause with the type hint and,
  when \<open>arrow\<close> is given, the arrow and the direction word, the colon and the inner
  query, with white space \<open>w1\<close> .. \<open>w7\<close> between the tokens.
\<close>

definition arrowText :: "(string \<times> string \<times> string) option \<Rightarrow> string" where
  "arrowText arrow = (case arrow of None \<Rightarrow> [] | Some (w4, d, w5) \<Rightarrow> ''->'' @ w4 @ d @ w5)"

definition filterArg ::
  "string \<Rightarrow> string \<Rightarrow> string \<Rightarrow> string \<Rightarrow> string \<Rightarrow> (string \<times> string \<times> string) option
     \<Rightarrow> string \<Rightarrow> string \<Rightarrow> string \<Rightarrow> string" where
  "filterArg md w1 w2 hint w3 arrow w6 w7 q =
     md @ w1 @ ''['' @ w2 @ hint @ w3 @ arrowText arrow @ '']'' @ w6 @ '':'' @ w7 @ q"

definition blank :: "string \<Rightarrow> bool" where
  "blank w = (\<forall>x\<in>set w. isSpace x)"

definition arrowOk :: "(string \<times> string \<times> string) option \<Rightarrow> bool" where
  "arrowOk arrow =
     (case arrow of
        None \<Rightarrow> True
      | Some (w4, d, w5) \<Rightarrow>
          blank w4 \<and> blank w5 \<and> (toLowerCase d = ''inward'' \<or> toLowerCase d = ''outward''))"

definition directionWord :: "(string \<times> string \<times> string) option \<Rightarrow> direction option" where
  "directionWord arrow =
     (case arrow of
        None \<Rightarrow> None
      | Some (w4, d, w5) \<Rightarrow>
          if toLowerCase d = ''inward'' then Some Inward
          else if toLowerCase d = ''outward'' then Some Outward else None)"

text \<open>Sample inputs: invocations, key sets and services.\<close>

definition mkInvocation :: "string option \<Rightarrow> string \<Rightarrow> invocation option" where
  "mkInvocation opr a = Some \<lparr>clause = Some \<lparr>operator = opr, arguments = Some [a]\<rparr>\<rparr>"

definition manyKeys :: "nat \<Rightarrow> keyset" where
  "manyKeys n = map (\<lambda>i. replicate (Suc i) CHR ''K'') [0..<n]"

definition failingService :: service where
  "failingService n r = Response 500 False ''Internal Server Error'' (Inl ''Unexpected token'')"

definition blocksLink :: "string option \<Rightarrow> string option \<Rightarrow> issue_link" where
  "blocksLink outKey inKey =
     \<lparr>ltype = Some \<lparr>name = Some ''Blocks'', inward = Some ''is blocked by'',
                     outward = Some ''blocks''\<rparr>,
      outwardIssue = outKey, inwardIssue = inKey\<rparr>"

definition relatesLink :: "string option \<Rightarrow> string option \<Rightarrow> issue_link" where
  "relatesLink outKey inKey =
     \<lparr>ltype = Some \<lparr>name = Some ''Relates'', inward = Some ''relates to'',
                     outward = Some ''relates to''\<rparr>,
      outwardIssue = outKey, inwardIssue = inKey\<rparr>"

definition seedWithLinks :: "issue_link list \<Rightarrow> issue" where
  "seedWithLinks ls = \<lparr>issuelinks = ls, parent = None, subtasks = []\<rparr>"

definition seedWithParent :: "string \<Rightarrow> issue_type option \<Rightarrow> issue" where
  "seedWithParent k t =
     \<lparr>issuelinks = [], parent = Some \<lparr>parent_key = Some k, issuetype = t\<rparr>, subtasks = []\<rparr>"

definition mixedBlocksSeeds :: "issue list" where
  "mixedBlocksSeeds =
     [seedWithLinks [blocksLink (Some ''X-1'') None, blocksLink None (Some ''Y-2'')],
      seedWithLinks [relatesLink (Some ''Z-3'') None, blocksLink (Some ''X-1'') None]]"

text \<open>
  A link whose type is named \<open>BLOQU\<close> followed by the capital \<open>U+00C9\<close>, and a filter
  whose hint is that name in lower case behind a no-break space.
\<close>

definition accentSeeds :: "issue list" where
  "accentSeeds =
     [seedWithLinks
        [\<lparr>ltype = Some \<lparr>name = Some (''BLOQU'' @ [CHR 0xC9]), inward = None, outward = None\<rparr>,
          outwardIssue = Some ''X-1'', inwardIssue = None\<rparr>]]"

definition accentFilter :: "link_filter option" where
  "accentFilter = Some \<lparr>typeHint = [CHR 0xA0] @ ''bloqu'' @ [CHR 0xE9], direction = None\<rparr>"

definition blocksOutward :: "link_filter option" where
  "blocksOutward = Some \<lparr>typeHint = ''blocks'', direction = Some Outward\<rparr>"

definition taskSeeds :: "issue list" where
  "taskSeeds =
     [seedWithParent ''E-1'' (Some \<lparr>hierarchyLevel = None, type_name = Some ''Epic''\<rparr>),
      seedWithParent ''S-2'' (Some \<lparr>hierarchyLevel = Some 0, type_name = Some ''Story''\<rparr>),
      seedWithParent ''U-3'' None,
      seedWithParent ''L-4'' (Some \<lparr>hierarchyLevel = Some 1, type_name = None\<rparr>)]"

definition pageOf :: "issue list \<Rightarrow> string option \<Rightarrow> int option \<Rightarrow> int option \<Rightarrow> response" where
  "pageOf items tok reported tot =
     Response 200 True []
       (Inr \<lparr>data_issues = items, data_nextPageToken = tok, data_isLast = None,
             data_maxResults = reported, data_total = tot\<rparr>)"

definition notFound :: response where
  "notFound = Response 404 False ''Not Found'' (Inl ''Unexpected token'')"

text \<open>A service with one seed item that has one outward link to \<open>XYZ-9\<close>.\<close>

definition linkedService :: service where
  "linkedService n r = pageOf [seedWithLinks [blocksLink (Some ''XYZ-9'') None]] None None None"

text \<open>
  A service without the cursor-based endpoint whose offset-based endpoint reports pages
  of 150 items, out of 1000, whatever size is asked for.
\<close>

definition oversizedService :: service where
  "oversizedService n r =
     (case r of
        EnhancedSearch q sz flds tok \<Rightarrow> notFound
      | LegacySearch q off sz flds \<Rightarrow> pageOf [] None (Some 150) (Some 1000))"

text \<open>
  A service whose cursor-based endpoint answers the first page and reports not-found
  on the second, and whose offset-based endpoint returns both items of the result.
\<close>

definition lateNotFoundService :: service where
  "lateNotFoundService n r =
     (case r of
        EnhancedSearch q sz flds tok \<Rightarrow>
          (if tok = None
           then pageOf [seedWithLinks [blocksLink (Some ''A-1'') None]] (Some ''t1'') None None
           else notFound)
      | LegacySearch q off sz flds \<Rightarrow>
          pageOf [seedWithLinks [blocksLink (Some ''A-1'') None],
                  seedWithLinks [blocksLink (Some ''B-2'') None]] None (Some 100) (Some 2))"

text \<open>
  A service whose cursor-based endpoint fails with status 500 and a body that holds the
  text of the not-available marker.
\<close>

definition markerBodyService :: service where
  "markerBodyService n r =
     (case r of
        EnhancedSearch q sz flds tok \<Rightarrow>
          Response 500 False ''upstream said ENHANCED_JQL_NOT_AVAILABLE'' (Inl ''Unexpected token'')
      | LegacySearch q off sz flds \<Rightarrow>
          pageOf [seedWithLinks [blocksLink (Some ''A-1'') None]] None (Some 100) (Some 1))"

text \<open>
  A service without the cursor-based endpoint whose offset-based endpoint reports pages
  of 50 items, out of 120.
\<close>

definition smallPagesService :: service where
  "smallPagesService n r =
     (case r of
        EnhancedSearch q sz flds tok \<Rightarrow> notFound
      | LegacySearch q off sz flds \<Rightarrow> pageOf [] None (Some 50) (Some 120))"

section \<open>Verification\<close>

subsection \<open>Strings and key sets\<close>

lemma trim_blank: "\<forall>c\<in>set a. isSpace c \<Longrightarrow> trim a = []"
proof -
  assume "\<forall>c\<in>set a. isSpace c"
  then have d: "dropWhile isSpace a = []" by simp
  show ?thesis unfolding trim_def d by simp
qed

lemma set_add_distinct: "distinct out \<Longrightarrow> distinct (set_add out k)"
  by (simp add: set_add_def)

lemma set_add_set: "set (set_add out k) = insert k (set out)"
  by (auto simp: set_add_def)

lemma new_Set_fold_distinct:
  "distinct acc \<Longrightarrow> distinct xs \<Longrightarrow> set acc \<inter> set xs = {} \<Longrightarrow>
   fold (\<lambda>k out. set_add out k) xs acc = acc @ xs"
  by (induction xs arbitrary: acc) (auto simp: set_add_def)

lemma new_Set_distinct: "distinct xs \<Longrightarrow> new_Set xs = xs"
  using new_Set_fold_distinct[of "[]" xs] by (simp add: new_Set_def)

lemma manyKeys_distinct: "distinct (manyKeys n)"
  by (auto simp: manyKeys_def distinct_map inj_on_def replicate_eq_replicate)

lemma manyKeys_length: "length (manyKeys n) = n"
  by (simp add: manyKeys_def)

subsection \<open>Fragment builder\<close>










subsection \<open>Result cap\<close>

lemma fold_distinct:
  "(\<And>x out. distinct out \<Longrightarrow> distinct (f x out)) \<Longrightarrow> distinct acc \<Longrightarrow> distinct (fold f xs acc)"
  by (induction xs arbitrary: acc) simp_all

lemma add_key_keeps_distinct: "distinct out \<Longrightarrow> distinct (add_key out x)"
  by (simp add: add_key_def set_add_distinct split: option.splits)

lemma extractParentKeys_distinct: "distinct (extractParentKeys seeds)"
  unfolding extractParentKeys_def
  by (rule fold_distinct) (simp_all add: add_key_keeps_distinct split: option.splits)

lemma extractSubtaskKeys_distinct: "distinct (extractSubtaskKeys seeds)"
  unfolding extractSubtaskKeys_def
  by (rule fold_distinct, rule fold_distinct) (simp_all add: add_key_keeps_distinct)

lemma extractParentEpicKeys_distinct: "distinct (extractParentEpicKeys seeds)"
  unfolding extractParentEpicKeys_def
  by (rule fold_distinct)
     (simp_all add: epicStep_def add_key_keeps_distinct split: option.splits)

lemma extractLinkedIssueKeys_distinct: "distinct (extractLinkedIssueKeys seeds lf)"
  unfolding extractLinkedIssueKeys_def
  by (rule fold_distinct, rule fold_distinct)
     (simp_all add: linkStep_def Let_def add_key_keeps_distinct)

lemma extractLinkedIssueKeys_index_distinct: "distinct (extractLinkedIssueKeys_index seeds)"
  unfolding extractLinkedIssueKeys_index_def
  by (rule fold_distinct, rule fold_distinct) (simp_all add: add_key_keeps_distinct)

lemma extractKeys_distinct: "distinct (extractKeys m lf seeds)"
  by (simp add: extractKeys_def extractParentKeys_distinct extractSubtaskKeys_distinct
        extractParentEpicKeys_distinct extractLinkedIssueKeys_distinct)

lemma extractKeys_index_distinct: "distinct (extractKeys_index m seeds)"
  by (simp add: extractKeys_index_def extractParentKeys_distinct extractSubtaskKeys_distinct
        extractParentEpicKeys_distinct extractLinkedIssueKeys_index_distinct)

text \<open>
  Claim C8. The capping step keeps the first 1000 keys of the extracted key set in the
  set's enumeration order: a set of more than 1000 keys is cut to exactly those 1000,
  a set of at most 1000 keys passes through unchanged, and the fragment built from the
  capped set lists exactly the kept keys. Every extractor returns such a set, and when
  the retrieval succeeds the fragment the entry point returns is the one built from the
  first 1000 extracted keys.
\<close>

theorem limitedKeys_first_1000:
  "(distinct keys \<longrightarrow>
       limitedKeysOf keys = take 1000 keys
     \<and> (1000 < length keys \<longrightarrow> length (limitedKeysOf keys) = 1000)
     \<and> (length keys \<le> 1000 \<longrightarrow> limitedKeysOf keys = keys)
     \<and> (keys \<noteq> [] \<longrightarrow>
          buildIssueKeySetJql (limitedKeysOf keys) negate =
            ''issuekey '' @ (if negate then ''not in'' else ''in'') @ '' (''
              @ join '', '' (map quoteKey (take 1000 keys)) @ '')''))
   \<and> distinct (extractKeys m lf seeds)
   \<and> distinct (extractKeys_index m seeds)
   \<and> (innerJql (parseArg (arg0Of args)) \<noteq> []
        \<and> searchSeedIssues svc (innerJql (parseArg (arg0Of args))) wantedFieldsOf 4 100
            = (Inr seeds, log)
      \<longrightarrow> issuesWithText svc args
            = (\<lparr>jql = buildIssueKeySetJql
                        (take 1000 (extractKeys (mode (parseArg (arg0Of args)))
                                      (linkFilter (parseArg (arg0Of args))) seeds))
                        (operatorOf args \<noteq> ''in'')\<rparr>,
               log))"
proof (intro conjI impI)
  assume d: "distinct keys"
  show "limitedKeysOf keys = take 1000 keys"
    using d by (simp add: limitedKeysOf_def new_Set_distinct)
  then show "buildIssueKeySetJql (limitedKeysOf keys) negate =
            ''issuekey '' @ (if negate then ''not in'' else ''in'') @ '' (''
              @ join '', '' (map quoteKey (take 1000 keys)) @ '')''" if "keys \<noteq> []"
    using that by (simp add: buildIssueKeySetJql_def)
  show "length (limitedKeysOf keys) = 1000" if "1000 < length keys"
    using d that by (simp add: limitedKeysOf_def new_Set_distinct)
  show "limitedKeysOf keys = keys" if "length keys \<le> 1000"
    using d that by (simp add: limitedKeysOf_def new_Set_distinct)
next
  show "distinct (extractKeys m lf seeds)" by (rule extractKeys_distinct)
  show "distinct (extractKeys_index m seeds)" by (rule extractKeys_index_distinct)
next
  assume a: "innerJql (parseArg (arg0Of args)) \<noteq> []
        \<and> searchSeedIssues svc (innerJql (parseArg (arg0Of args))) wantedFieldsOf 4 100
            = (Inr seeds, log)"
  have "limitedKeysOf (extractKeys (mode (parseArg (arg0Of args)))
                         (linkFilter (parseArg (arg0Of args))) seeds)
        = take 1000 (extractKeys (mode (parseArg (arg0Of args)))
                         (linkFilter (parseArg (arg0Of args))) seeds)"
    by (simp add: limitedKeysOf_def new_Set_distinct extractKeys_distinct)
  then show "issuesWithText svc args
            = (\<lparr>jql = buildIssueKeySetJql
                        (take 1000 (extractKeys (mode (parseArg (arg0Of args)))
                                      (linkFilter (parseArg (arg0Of args))) seeds))
                        (operatorOf args \<noteq> ''in'')\<rparr>,
               log)"
    using a by (simp add: issuesWithText_def issuesWithText_try_def Let_def)
qed

theorem limitedKeys_first_1000_witness:
  "distinct (manyKeys 1001) \<and> 1000 < length (manyKeys 1001)
   \<and> limitedKeysOf (manyKeys 1001) = take 1000 (manyKeys 1001)
   \<and> length (limitedKeysOf (manyKeys 1001)) = 1000
   \<and> distinct (manyKeys 2) \<and> length (manyKeys 2) \<le> 1000
   \<and> limitedKeysOf (manyKeys 2) = manyKeys 2"
  using limitedKeys_first_1000[of "manyKeys 1001" False]
        limitedKeys_first_1000[of "manyKeys 2" False]
  by (simp add: manyKeys_distinct manyKeys_length)

subsection \<open>Resolver entry point\<close>

lemma parseArg_blank:
  "\<forall>c\<in>set a. isSpace c \<Longrightarrow>
   parseArg (Some a) = \<lparr>mode = ''linked'', linkFilter = None, innerJql = []\<rparr>"
  by (simp add: parseArg_def str_or_empty_def trim_blank)

lemma parseArg_absent:
  "parseArg None = \<lparr>mode = ''linked'', linkFilter = None, innerJql = []\<rparr>"
  by (simp add: parseArg_def str_or_empty_def trim_def)

text \<open>
  Claim C5. When the argument is empty or holds only white space, the entry point
  returns the nothing-matches sentinel whatever the operator is, and the log of calls to
  the search service is empty: neither protocol has been called. White space is what
  \<open>trim\<close> removes, the no-break space included.
\<close>

lemma parseArg_index_blank:
  "\<forall>c\<in>set a. isSpace c \<Longrightarrow>
   parseArg_index (Some a) = \<lparr>mode = ''linked'', linkFilter = None, innerJql = []\<rparr>"
  by (simp add: parseArg_index_def str_or_empty_def trim_blank)

lemma parseArg_index_absent:
  "parseArg_index None = \<lparr>mode = ''linked'', linkFilter = None, innerJql = []\<rparr>"
  by (simp add: parseArg_index_def str_or_empty_def trim_def)

theorem blank_argument_short_circuit:
  "arg0Of args = Some a \<Longrightarrow> \<forall>c\<in>set a. isSpace c \<Longrightarrow>
   issuesWithText svc args = (\<lparr>jql = SAFE_NO_MATCH\<rparr>, [])
   \<and> issuesWithText_index svc args = (\<lparr>jql = SAFE_NO_MATCH\<rparr>, [])"
  by (simp add: issuesWithText_def issuesWithText_try_def parseArg_blank
        issuesWithText_index_def issuesWithText_try_index_def parseArg_index_blank)

theorem blank_argument_short_circuit_witness:
  "\<forall>svc. arg0Of (mkInvocation (Some ''not in'') [CHR 0x20, CHR 0x09, CHR 0xA0])
            = Some [CHR 0x20, CHR 0x09, CHR 0xA0]
   \<and> issuesWithText svc (mkInvocation (Some ''not in'') [CHR 0x20, CHR 0x09, CHR 0xA0])
       = (\<lparr>jql = SAFE_NO_MATCH\<rparr>, [])
   \<and> issuesWithText_index svc (mkInvocation (Some ''not in'') [CHR 0x20, CHR 0x09, CHR 0xA0])
       = (\<lparr>jql = SAFE_NO_MATCH\<rparr>, [])
   \<and> issuesWithText svc (mkInvocation (Some ''in'') [CHR 0xA0]) = (\<lparr>jql = SAFE_NO_MATCH\<rparr>, [])
   \<and> issuesWithText svc (mkInvocation (Some ''in'') []) = (\<lparr>jql = SAFE_NO_MATCH\<rparr>, [])"
proof
  fix svc :: service
  have a: "arg0Of (mkInvocation (Some ''not in'') [CHR 0x20, CHR 0x09, CHR 0xA0])
             = Some [CHR 0x20, CHR 0x09, CHR 0xA0]"
    by (simp add: arg0Of_def mkInvocation_def)
  have b: "\<forall>c\<in>set [CHR 0x20, CHR 0x09, CHR 0xA0]. isSpace c"
    by (simp add: isSpace_def)
  have a': "arg0Of (mkInvocation (Some ''in'') []) = Some []"
    by (simp add: arg0Of_def mkInvocation_def)
  have a'': "arg0Of (mkInvocation (Some ''in'') [CHR 0xA0]) = Some [CHR 0xA0]"
    by (simp add: arg0Of_def mkInvocation_def)
  have b'': "\<forall>c\<in>set [CHR 0xA0]. isSpace c"
    by (simp add: isSpace_def)
  show "arg0Of (mkInvocation (Some ''not in'') [CHR 0x20, CHR 0x09, CHR 0xA0])
            = Some [CHR 0x20, CHR 0x09, CHR 0xA0]
   \<and> issuesWithText svc (mkInvocation (Some ''not in'') [CHR 0x20, CHR 0x09, CHR 0xA0])
       = (\<lparr>jql = SAFE_NO_MATCH\<rparr>, [])
   \<and> issuesWithText_index svc (mkInvocation (Some ''not in'') [CHR 0x20, CHR 0x09, CHR 0xA0])
       = (\<lparr>jql = SAFE_NO_MATCH\<rparr>, [])
   \<and> issuesWithText svc (mkInvocation (Some ''in'') [CHR 0xA0]) = (\<lparr>jql = SAFE_NO_MATCH\<rparr>, [])
   \<and> issuesWithText svc (mkInvocation (Some ''in'') []) = (\<lparr>jql = SAFE_NO_MATCH\<rparr>, [])"
    using a blank_argument_short_circuit[OF a b, of svc]
          blank_argument_short_circuit[OF a'' b'', of svc]
          blank_argument_short_circuit[OF a', of svc]
    by simp
qed

text \<open>
  Claim C1. The entry point returns a fragment for every invocation and every
  behaviour of the search service. Whenever an error is thrown inside its \<open>try\<close> block
  it returns exactly the nothing-matches sentinel, whatever the operator is; in
  particular every failure of the seed retrieval ends so. Both variants of the entry
  point do.
\<close>

theorem issuesWithText_failure_sentinel:
  "(fst (issuesWithText_try svc args) = Inl e \<longrightarrow>
      issuesWithText svc args = (\<lparr>jql = SAFE_NO_MATCH\<rparr>, snd (issuesWithText_try svc args)))
   \<and> (innerJql (parseArg (arg0Of args)) \<noteq> []
        \<and> fst (searchSeedIssues svc (innerJql (parseArg (arg0Of args))) wantedFieldsOf 4 100) = Inl e
      \<longrightarrow> fst (issuesWithText svc args) = \<lparr>jql = SAFE_NO_MATCH\<rparr>)
   \<and> (fst (issuesWithText_try_index svc args) = Inl e \<longrightarrow>
      issuesWithText_index svc args
        = (\<lparr>jql = SAFE_NO_MATCH\<rparr>, snd (issuesWithText_try_index svc args)))
   \<and> (innerJql (parseArg_index (arg0Of args)) \<noteq> []
        \<and> fst (searchSeedIssues svc (innerJql (parseArg_index (arg0Of args))) wantedFieldsOf 4 100)
            = Inl e
      \<longrightarrow> fst (issuesWithText_index svc args) = \<lparr>jql = SAFE_NO_MATCH\<rparr>)"
proof (intro conjI)
  show "fst (issuesWithText_try svc args) = Inl e \<longrightarrow>
      issuesWithText svc args = (\<lparr>jql = SAFE_NO_MATCH\<rparr>, snd (issuesWithText_try svc args))"
    by (auto simp: issuesWithText_def split: prod.splits sum.splits)
  show "innerJql (parseArg (arg0Of args)) \<noteq> []
        \<and> fst (searchSeedIssues svc (innerJql (parseArg (arg0Of args))) wantedFieldsOf 4 100) = Inl e
      \<longrightarrow> fst (issuesWithText svc args) = \<lparr>jql = SAFE_NO_MATCH\<rparr>"
    by (auto simp: issuesWithText_def issuesWithText_try_def Let_def split: prod.splits sum.splits)
  show "fst (issuesWithText_try_index svc args) = Inl e \<longrightarrow>
      issuesWithText_index svc args
        = (\<lparr>jql = SAFE_NO_MATCH\<rparr>, snd (issuesWithText_try_index svc args))"
    by (auto simp: issuesWithText_index_def split: prod.splits sum.splits)
  show "innerJql (parseArg_index (arg0Of args)) \<noteq> []
        \<and> fst (searchSeedIssues svc (innerJql (parseArg_index (arg0Of args))) wantedFieldsOf 4 100)
            = Inl e
      \<longrightarrow> fst (issuesWithText_index svc args) = \<lparr>jql = SAFE_NO_MATCH\<rparr>"
    by (auto simp: issuesWithText_index_def issuesWithText_try_index_def Let_def
          split: prod.splits sum.splits)
qed

theorem issuesWithText_failure_sentinel_witness:
  "fst (issuesWithText_try failingService
         (mkInvocation (Some ''not in'') ''linked: issuekey = ABC-1''))
     = Inl (Error ''Enhanced search failed: 500 Internal Server Error'')
   \<and> fst (issuesWithText failingService
             (mkInvocation (Some ''not in'') ''linked: issuekey = ABC-1''))
       = \<lparr>jql = SAFE_NO_MATCH\<rparr>
   \<and> fst (issuesWithText_index failingService
             (mkInvocation (Some ''not in'') ''linked: issuekey = ABC-1''))
       = \<lparr>jql = SAFE_NO_MATCH\<rparr>"
proof -
  have h: "fst (issuesWithText_try failingService
                 (mkInvocation (Some ''not in'') ''linked: issuekey = ABC-1''))
           = Inl (Error ''Enhanced search failed: 500 Internal Server Error'')"
    by code_simp
  have h': "fst (issuesWithText_try_index failingService
                 (mkInvocation (Some ''not in'') ''linked: issuekey = ABC-1''))
           = Inl (Error ''Enhanced search failed: 500 Internal Server Error'')"
    by code_simp
  show ?thesis
    using h h' issuesWithText_failure_sentinel[of failingService
              "mkInvocation (Some ''not in'') ''linked: issuekey = ABC-1''"
              "Error ''Enhanced search failed: 500 Internal Server Error''"]
    by simp
qed

text \<open>
  Claim C10, as stated, fails: an invocation that lacks only the operator but carries a
  non-blank argument is resolved with the operator \<open>in\<close>; the search service is called
  and the fragment is built from what it returns.
\<close>

theorem missing_operator_counterexample:
  "missingPart (mkInvocation None ''linked: issuekey = ABC-1'')
   \<and> issuesWithText linkedService (mkInvocation None ''linked: issuekey = ABC-1'')
       = (\<lparr>jql = ''issuekey in ('' @ [CHR 0x27] @ ''XYZ-9'' @ [CHR 0x27] @ '')''\<rparr>,
          [EnhancedSearch ''issuekey = ABC-1'' 100
             [''issuelinks'', ''parent'', ''issuetype'', ''subtasks''] None])
   \<and> issuesWithText linkedService (mkInvocation None ''linked: issuekey = ABC-1'')
       \<noteq> (\<lparr>jql = SAFE_NO_MATCH\<rparr>, [])"
  by code_simp

text \<open>
  Claim C10, amended. For every invocation object that is absent, or lacks the clause
  or the arguments array, or has an empty arguments array, the entry point returns the
  nothing-matches sentinel and calls no search endpoint. An invocation that lacks only
  the operator is resolved exactly as the same invocation with the operator \<open>in\<close>.
  Both variants of the entry point do so.
\<close>

theorem missing_parts_default:
  "((args = None
     \<or> (\<exists>a. args = Some a \<and>
           (clause a = None
            \<or> (\<exists>cl. clause a = Some cl \<and> (arguments cl = None \<or> arguments cl = Some [])))))
    \<longrightarrow> issuesWithText svc args = (\<lparr>jql = SAFE_NO_MATCH\<rparr>, [])
        \<and> issuesWithText_index svc args = (\<lparr>jql = SAFE_NO_MATCH\<rparr>, []))
   \<and> issuesWithText svc (Some \<lparr>clause = Some \<lparr>operator = None, arguments = as\<rparr>\<rparr>)
       = issuesWithText svc (Some \<lparr>clause = Some \<lparr>operator = Some ''in'', arguments = as\<rparr>\<rparr>)
   \<and> issuesWithText_index svc (Some \<lparr>clause = Some \<lparr>operator = None, arguments = as\<rparr>\<rparr>)
       = issuesWithText_index svc
           (Some \<lparr>clause = Some \<lparr>operator = Some ''in'', arguments = as\<rparr>\<rparr>)"
proof (intro conjI impI)
  assume h: "args = None
     \<or> (\<exists>a. args = Some a \<and>
           (clause a = None
            \<or> (\<exists>cl. clause a = Some cl \<and> (arguments cl = None \<or> arguments cl = Some []))))"
  then have n: "arg0Of args = None"
    by (auto simp: arg0Of_def)
  show "issuesWithText svc args = (\<lparr>jql = SAFE_NO_MATCH\<rparr>, [])"
    using n by (simp add: issuesWithText_def issuesWithText_try_def parseArg_absent)
  show "issuesWithText_index svc args = (\<lparr>jql = SAFE_NO_MATCH\<rparr>, [])"
    using n
    by (simp add: issuesWithText_index_def issuesWithText_try_index_def parseArg_index_absent)
next
  have o: "operatorOf (Some \<lparr>clause = Some \<lparr>operator = None, arguments = as\<rparr>\<rparr>)
             = operatorOf (Some \<lparr>clause = Some \<lparr>operator = Some ''in'', arguments = as\<rparr>\<rparr>)"
    by (simp add: operatorOf_def truthy_def str_or_empty_def)
  have a: "arg0Of (Some \<lparr>clause = Some \<lparr>operator = None, arguments = as\<rparr>\<rparr>)
             = arg0Of (Some \<lparr>clause = Some \<lparr>operator = Some ''in'', arguments = as\<rparr>\<rparr>)"
    by (simp add: arg0Of_def)
  show "issuesWithText svc (Some \<lparr>clause = Some \<lparr>operator = None, arguments = as\<rparr>\<rparr>)
       = issuesWithText svc (Some \<lparr>clause = Some \<lparr>operator = Some ''in'', arguments = as\<rparr>\<rparr>)"
    unfolding issuesWithText_def issuesWithText_try_def o a by (rule refl)
  show "issuesWithText_index svc (Some \<lparr>clause = Some \<lparr>operator = None, arguments = as\<rparr>\<rparr>)
       = issuesWithText_index svc
           (Some \<lparr>clause = Some \<lparr>operator = Some ''in'', arguments = as\<rparr>\<rparr>)"
    unfolding issuesWithText_index_def issuesWithText_try_index_def o a by (rule refl)
qed

theorem missing_parts_default_witness:
  "\<forall>svc. issuesWithText svc None = (\<lparr>jql = SAFE_NO_MATCH\<rparr>, [])
     \<and> issuesWithText svc (Some \<lparr>clause = None\<rparr>) = (\<lparr>jql = SAFE_NO_MATCH\<rparr>, [])
     \<and> issuesWithText svc (Some \<lparr>clause = Some \<lparr>operator = Some ''not in'', arguments = None\<rparr>\<rparr>)
         = (\<lparr>jql = SAFE_NO_MATCH\<rparr>, [])
     \<and> issuesWithText_index svc None = (\<lparr>jql = SAFE_NO_MATCH\<rparr>, [])"
proof
  fix svc :: service
  show "issuesWithText svc None = (\<lparr>jql = SAFE_NO_MATCH\<rparr>, [])
     \<and> issuesWithText svc (Some \<lparr>clause = None\<rparr>) = (\<lparr>jql = SAFE_NO_MATCH\<rparr>, [])
     \<and> issuesWithText svc (Some \<lparr>clause = Some \<lparr>operator = Some ''not in'', arguments = None\<rparr>\<rparr>)
         = (\<lparr>jql = SAFE_NO_MATCH\<rparr>, [])
     \<and> issuesWithText_index svc None = (\<lparr>jql = SAFE_NO_MATCH\<rparr>, [])"
    using missing_parts_default[of None svc]
          missing_parts_default[of "Some \<lparr>clause = None\<rparr>" svc]
          missing_parts_default[of "Some \<lparr>clause = Some \<lparr>operator = Some ''not in'',
                                                          arguments = None\<rparr>\<rparr>" svc]
    by simp
qed

subsection \<open>Relationship extractors\<close>

lemma add_key_set: "set (add_key out x) = set out \<union> {k. x = Some k \<and> k \<noteq> []}"
  by (auto simp: add_key_def set_add_set split: option.splits)

lemma trim_toLowerCase_Nil: "trim (toLowerCase []) = []"
  by (simp add: trim_def toLowerCase_def)

lemma hintOf_needFilter: "hintOf lf \<noteq> [] \<Longrightarrow> needFilter lf"
  by (cases lf) (auto simp: hintOf_def needFilter_def trim_toLowerCase_Nil)

lemma pass_hintMatches: "pass lf l = hintMatches lf l"
proof (cases "hintOf lf = []")
  case True
  then show ?thesis
    by (cases lf) (simp_all add: pass_def hintMatches_def hintOf_def)
next
  case False
  then obtain f where f: "lf = Some f"
    by (cases lf) (auto simp: hintOf_def trim_toLowerCase_Nil)
  from False have "needFilter lf" by (rule hintOf_needFilter)
  then show ?thesis using False f
    by (cases "ltype l")
       (auto simp: pass_def hintMatches_def hintOf_def labelsOf_def tName_def tIn_def tOut_def
          str_or_empty_def)
qed

lemma linkStep_set: "set (linkStep lf l out) = set out \<union> {k. linkedTarget lf l k}"
  by (auto simp: linkStep_def Let_def add_key_set pass_hintMatches linkedTarget_def truthy_def
        requestedSide_def needFilter_def wantInward_def wantOutward_def split: option.splits)

lemma linkStep_distinct: "distinct out \<Longrightarrow> distinct (linkStep lf l out)"
  by (simp add: linkStep_def Let_def add_key_keeps_distinct)

lemma fold_linkStep_set:
  "set (fold (linkStep lf) ls out) = set out \<union> {k. \<exists>l\<in>set ls. linkedTarget lf l k}"
  by (induction ls arbitrary: out) (auto simp: linkStep_set)

lemma fold_linkStep_distinct: "distinct out \<Longrightarrow> distinct (fold (linkStep lf) ls out)"
  by (induction ls arbitrary: out) (simp_all add: linkStep_distinct)

lemma fold_issues_set:
  "set (fold (\<lambda>i out. fold (linkStep lf) (issuelinks i) out) seeds out)
     = set out \<union> {k. \<exists>i\<in>set seeds. \<exists>l\<in>set (issuelinks i). linkedTarget lf l k}"
  by (induction seeds arbitrary: out) (auto simp: fold_linkStep_set)

lemma fold_issues_distinct:
  "distinct out \<Longrightarrow> distinct (fold (\<lambda>i out. fold (linkStep lf) (issuelinks i) out) seeds out)"
  by (induction seeds arbitrary: out) (simp_all add: fold_linkStep_distinct)

text \<open>
  Claim C3. For every sequence of seed items and every link filter, the keys the Linked
  extractor returns are exactly the targets of the links the filter lets through: a
  filter with a type hint lets a link through only if the trimmed, lowercased hint equals
  the link type's display name, inward label or outward label (compared trimmed and
  lowercased); with a direction only the target of that side is collected; with a hint
  and no direction both sides of the matching links are; with no filter both sides of
  every link are. A hint counts as present when it is not blank. The result holds each
  key once. White space and case are those of JavaScript on the code units of the
  strings, the no-break space and the accented capitals included.
\<close>

theorem extractLinkedIssueKeys_collects:
  "distinct (extractLinkedIssueKeys seeds lf)
   \<and> (k \<in> set (extractLinkedIssueKeys seeds lf) \<longleftrightarrow>
        (\<exists>i\<in>set seeds. \<exists>l\<in>set (issuelinks i). linkedTarget lf l k))"
  by (simp add: extractLinkedIssueKeys_def fold_issues_set fold_issues_distinct)

theorem extractLinkedIssueKeys_collects_witness:
  "''X-1'' \<in> set (extractLinkedIssueKeys mixedBlocksSeeds blocksOutward)
   \<and> ''Y-2'' \<notin> set (extractLinkedIssueKeys mixedBlocksSeeds blocksOutward)
   \<and> ''Z-3'' \<notin> set (extractLinkedIssueKeys mixedBlocksSeeds blocksOutward)
   \<and> ''Y-2'' \<in> set (extractLinkedIssueKeys mixedBlocksSeeds
                        (Some \<lparr>typeHint = '' Is Blocked BY '', direction = None\<rparr>))
   \<and> ''Z-3'' \<in> set (extractLinkedIssueKeys mixedBlocksSeeds None)
   \<and> ''X-1'' \<in> set (extractLinkedIssueKeys accentSeeds accentFilter)"
proof -
  have a: "\<exists>i\<in>set mixedBlocksSeeds. \<exists>l\<in>set (issuelinks i). linkedTarget blocksOutward l ''X-1''"
    by code_simp
  have b: "\<not> (\<exists>i\<in>set mixedBlocksSeeds. \<exists>l\<in>set (issuelinks i). linkedTarget blocksOutward l ''Y-2'')"
    by code_simp
  have c: "\<not> (\<exists>i\<in>set mixedBlocksSeeds. \<exists>l\<in>set (issuelinks i). linkedTarget blocksOutward l ''Z-3'')"
    by code_simp
  have d: "\<exists>i\<in>set mixedBlocksSeeds. \<exists>l\<in>set (issuelinks i).
             linkedTarget (Some \<lparr>typeHint = '' Is Blocked BY '', direction = None\<rparr>) l ''Y-2''"
    by code_simp
  have e: "\<exists>i\<in>set mixedBlocksSeeds. \<exists>l\<in>set (issuelinks i). linkedTarget None l ''Z-3''"
    by code_simp
  have f: "\<exists>i\<in>set accentSeeds. \<exists>l\<in>set (issuelinks i). linkedTarget accentFilter l ''X-1''"
    by code_simp
  show ?thesis
    using a b c d e f
      extractLinkedIssueKeys_collects[of mixedBlocksSeeds blocksOutward "''X-1''"]
      extractLinkedIssueKeys_collects[of mixedBlocksSeeds blocksOutward "''Y-2''"]
      extractLinkedIssueKeys_collects[of mixedBlocksSeeds blocksOutward "''Z-3''"]
      extractLinkedIssueKeys_collects[of mixedBlocksSeeds
        "Some \<lparr>typeHint = '' Is Blocked BY '', direction = None\<rparr>" "''Y-2''"]
      extractLinkedIssueKeys_collects[of mixedBlocksSeeds None "''Z-3''"]
      extractLinkedIssueKeys_collects[of accentSeeds accentFilter "''X-1''"]
    by simp
qed

text \<open>
  The extractor itself, run on the accented label: the key is collected.
\<close>

lemma extractLinkedIssueKeys_accent:
  "extractLinkedIssueKeys accentSeeds accentFilter = [''X-1'']"
  by code_simp

lemma epicStep_set: "set (epicStep i out) = set out \<union> {k. epicParent i k}"
  by (auto simp: epicStep_def add_key_set epicParent_def epicType_def truthy_def
      split: option.splits)

lemma epicStep_distinct: "distinct out \<Longrightarrow> distinct (epicStep i out)"
  by (simp add: epicStep_def add_key_keeps_distinct split: option.splits)

lemma fold_epicStep_set:
  "set (fold epicStep seeds out) = set out \<union> {k. \<exists>i\<in>set seeds. epicParent i k}"
  by (induction seeds arbitrary: out) (auto simp: epicStep_set)

lemma fold_epicStep_distinct: "distinct out \<Longrightarrow> distinct (fold epicStep seeds out)"
  by (induction seeds arbitrary: out) (simp_all add: epicStep_distinct)

text \<open>
  Claim C7. For every sequence of seed items, a key is returned by the EpicOf extractor
  if and only if it is the key of the parent of some seed item and that parent's issue
  type is missing, or has hierarchy level 1, or is named \<open>epic\<close> in any case. So a
  parent whose issue type is there and says neither is left out (unless another seed
  item brings the same key in). The result holds each key once.
\<close>

theorem extractParentEpicKeys_collects:
  "distinct (extractParentEpicKeys seeds)
   \<and> (k \<in> set (extractParentEpicKeys seeds) \<longleftrightarrow> (\<exists>i\<in>set seeds. epicParent i k))"
  by (simp add: extractParentEpicKeys_def fold_epicStep_set fold_epicStep_distinct)

theorem extractParentEpicKeys_collects_witness:
  "''E-1'' \<in> set (extractParentEpicKeys taskSeeds)
   \<and> ''S-2'' \<notin> set (extractParentEpicKeys taskSeeds)
   \<and> ''U-3'' \<in> set (extractParentEpicKeys taskSeeds)
   \<and> ''L-4'' \<in> set (extractParentEpicKeys taskSeeds)"
proof -
  have lc: "toLowerCase ''Epic'' = ''epic''" "toLowerCase ''Story'' = ''story''"
    by code_simp+
  have a: "epicParent (taskSeeds ! 0) ''E-1''"
    by (simp add: epicParent_def taskSeeds_def seedWithParent_def lc str_or_empty_def)
  have b: "\<not> (\<exists>i\<in>set taskSeeds. epicParent i ''S-2'')"
    by (simp add: epicParent_def taskSeeds_def seedWithParent_def lc str_or_empty_def)
  have c: "epicParent (taskSeeds ! 2) ''U-3''"
    by (simp add: epicParent_def taskSeeds_def seedWithParent_def)
  have d: "epicParent (taskSeeds ! 3) ''L-4''"
    by (simp add: epicParent_def taskSeeds_def seedWithParent_def)
  have m: "taskSeeds ! 0 \<in> set taskSeeds" "taskSeeds ! 2 \<in> set taskSeeds"
          "taskSeeds ! 3 \<in> set taskSeeds"
    by (simp_all add: taskSeeds_def)
  show ?thesis
    using a b c d m
      extractParentEpicKeys_collects[of taskSeeds "''E-1''"]
      extractParentEpicKeys_collects[of taskSeeds "''S-2''"]
      extractParentEpicKeys_collects[of taskSeeds "''U-3''"]
      extractParentEpicKeys_collects[of taskSeeds "''L-4''"]
    by blast
qed

subsection \<open>Seed retriever\<close>

lemma reportedOrConfigured_num_or: "reportedOrConfigured ps r = num_or r ps"
  by (simp add: num_or_def reportedOrConfigured_def)

lemma num_or_total: "num_or (data_total d) 0 = reportedTotal d"
  by (simp add: num_or_def reportedTotal_def split: option.splits)

lemma legacyPages_calls:
  "calls (snd (legacyPages svc q flds pageSize n off st)) =
     calls st @ expectedLegacyRequests reportedOrConfigured svc (length (calls st)) q flds
                  pageSize n off"
proof (induction n arbitrary: off st)
  case 0
  show ?case by simp
next
  case (Suc n)
  show ?case
  proof (cases "svc (length (calls st)) (LegacySearch q off pageSize flds)")
    case (Rejected msg)
    then show ?thesis by (simp add: Let_def)
  next
    case (Response status ok body js)
    show ?thesis
    proof (cases js)
      case (Inl msg)
      then show ?thesis using Response by (simp add: Let_def)
    next
      case (Inr d)
      then show ?thesis using Response Suc.IH
        by (simp add: Let_def reportedOrConfigured_num_or num_or_total[symmetric] not_le)
    qed
  qed
qed

lemma expectedLegacyRequests_length:
  "length (expectedLegacyRequests inc svc i q flds pageSize n off) \<le> n"
proof (induction n arbitrary: i off)
  case 0
  show ?case by simp
next
  case (Suc n)
  show ?case using Suc.IH
    by (auto split: response.splits sum.splits)
qed

text \<open>
  Claim C9, as stated, fails: when the service reports a page size larger than the
  configured one, the offset grows by the reported size, not by the configured one. With
  100 configured and 150 reported the requests go to the offsets 0, 150, 300 and 450,
  where the claim has 0, 100, 200 and 300.
\<close>

theorem legacy_increment_counterexample:
  "calls (snd (legacyPages oversizedService ''q'' [''parent''] 100 4 0 \<lparr>issues = [], calls = []\<rparr>))
     = [LegacySearch ''q'' 0 100 [''parent''], LegacySearch ''q'' 150 100 [''parent''],
        LegacySearch ''q'' 300 100 [''parent''], LegacySearch ''q'' 450 100 [''parent'']]
   \<and> expectedLegacyRequests smallerOf oversizedService 0 ''q'' [''parent''] 100 4 0
     = [LegacySearch ''q'' 0 100 [''parent''], LegacySearch ''q'' 100 100 [''parent''],
        LegacySearch ''q'' 200 100 [''parent''], LegacySearch ''q'' 300 100 [''parent'']]
   \<and> calls (snd (legacyPages oversizedService ''q'' [''parent''] 100 4 0 \<lparr>issues = [], calls = []\<rparr>))
     \<noteq> expectedLegacyRequests smallerOf oversizedService 0 ''q'' [''parent''] 100 4 0"
  by code_simp

text \<open>
  Claim C9, amended. In the offset-based protocol every page request is sent at the
  current offset; after a successful page the offset grows by the page size the service
  reports when it reports one other than zero (smaller or larger than the configured
  one), and by the configured page size otherwise; the loop stops when the offset
  reaches the reported total, when the page-count cap is reached, or when a page fails.
  So the requests sent are exactly those the specification describes with that
  increment, and there are at most as many as the cap allows.
\<close>

theorem legacy_offsets_by_reported_size:
  "calls (snd (legacyPages svc q flds pageSize pageCap startAt st))
     = calls st @ expectedLegacyRequests reportedOrConfigured svc (length (calls st)) q flds
                    pageSize pageCap startAt
   \<and> length (expectedLegacyRequests reportedOrConfigured svc (length (calls st)) q flds
               pageSize pageCap startAt) \<le> pageCap"
  by (simp add: legacyPages_calls expectedLegacyRequests_length)

theorem legacy_offsets_by_reported_size_witness:
  "calls (snd (legacyPages smallPagesService ''q'' [''parent''] 100 4 0 \<lparr>issues = [], calls = []\<rparr>))
     = [LegacySearch ''q'' 0 100 [''parent''], LegacySearch ''q'' 50 100 [''parent''],
        LegacySearch ''q'' 100 100 [''parent'']]
   \<and> calls (snd (legacyPages oversizedService ''q'' [''parent''] 100 4 0 \<lparr>issues = [], calls = []\<rparr>))
     = [LegacySearch ''q'' 0 100 [''parent''], LegacySearch ''q'' 150 100 [''parent''],
        LegacySearch ''q'' 300 100 [''parent''], LegacySearch ''q'' 450 100 [''parent'']]"
proof -
  have a: "expectedLegacyRequests reportedOrConfigured smallPagesService 0 ''q'' [''parent''] 100 4 0
     = [LegacySearch ''q'' 0 100 [''parent''], LegacySearch ''q'' 50 100 [''parent''],
        LegacySearch ''q'' 100 100 [''parent'']]"
    by code_simp
  have b: "expectedLegacyRequests reportedOrConfigured oversizedService 0 ''q'' [''parent''] 100 4 0
     = [LegacySearch ''q'' 0 100 [''parent''], LegacySearch ''q'' 150 100 [''parent''],
        LegacySearch ''q'' 300 100 [''parent''], LegacySearch ''q'' 450 100 [''parent'']]"
    by code_simp
  show ?thesis
    using a b
      legacy_offsets_by_reported_size[of smallPagesService "''q''" "[''parent'']" 100 4 0
        "\<lparr>issues = [], calls = []\<rparr>"]
      legacy_offsets_by_reported_size[of oversizedService "''q''" "[''parent'']" 100 4 0
        "\<lparr>issues = [], calls = []\<rparr>"]
    by simp
qed

text \<open>
  Claim C6 at a failing input. The cursor-based endpoint answers the first page with the
  item linked to \<open>A-1\<close> and reports not-found on the second page. The retriever falls back
  to the offset-based protocol and starts it at offset 0, but keeps the page it already
  has: the item of the cursor-based protocol is in the returned seed sequence, before the
  two items of the offset-based one.
\<close>

theorem late_not_found_keeps_cursor_page:
  "searchSeedIssues lateNotFoundService ''q'' [''parent''] 4 100
     = (Inr [seedWithLinks [blocksLink (Some ''A-1'') None],
             seedWithLinks [blocksLink (Some ''A-1'') None],
             seedWithLinks [blocksLink (Some ''B-2'') None]],
        [EnhancedSearch ''q'' 100 [''parent''] None,
         EnhancedSearch ''q'' 100 [''parent''] (Some ''t1''),
         LegacySearch ''q'' 0 100 [''parent'']])"
  by code_simp

theorem late_not_found_keeps_cursor_page_witness:
  "length (snd (searchSeedIssues lateNotFoundService ''q'' [''parent''] 4 100)) = 3
   \<and> (\<exists>seeds. fst (searchSeedIssues lateNotFoundService ''q'' [''parent''] 4 100) = Inr seeds
         \<and> length seeds = 3)"
  using late_not_found_keeps_cursor_page by simp

text \<open>
  When the not-found answer comes on the first call, the switch is complete: the
  result is that of the offset-based protocol started on an empty list of items.
\<close>

lemma not_found_on_first_call:
  assumes "svc 0 (EnhancedSearch q pageSize flds None) = Response 404 ok body js"
  shows "searchSeedIssues svc q flds (Suc n) pageSize =
           (case legacyPages svc q flds pageSize (Suc n) 0
                   \<lparr>issues = [], calls = [EnhancedSearch q pageSize flds None]\<rparr> of
              (Inr u, st') \<Rightarrow> (Inr (issues st'), calls st')
            | (Inl e', st') \<Rightarrow> (Inl e', calls st'))"
proof -
  have m: "str_includes ''ENHANCED_JQL_NOT_AVAILABLE'' ''ENHANCED_JQL_NOT_AVAILABLE''"
    by simp
  have e: "enhancedPages svc q flds pageSize (Suc n) None \<lparr>issues = [], calls = []\<rparr>
             = (Inl (Error ''ENHANCED_JQL_NOT_AVAILABLE''),
                \<lparr>issues = [], calls = [EnhancedSearch q pageSize flds None]\<rparr>)"
    using assms by (simp add: truthy_def Let_def)
  show ?thesis
    unfolding searchSeedIssues_def e using m by simp
qed

text \<open>
  A second failing input of claim C6: a response of the cursor-based endpoint that is
  neither a success nor not-found, with the text of the marker in its body, is not
  propagated; the retriever falls back to the offset-based protocol.
\<close>

lemma marker_in_body_falls_back:
  "searchSeedIssues markerBodyService ''q'' [''parent''] 4 100
     = (Inr [seedWithLinks [blocksLink (Some ''A-1'') None]],
        [EnhancedSearch ''q'' 100 [''parent''] None, LegacySearch ''q'' 0 100 [''parent'']])"
  by code_simp

subsection \<open>Argument parser\<close>

lemma of_char_lowerChar:
  "(of_char (lowerChar c) :: nat) = (if isUpper c then of_char c + 32 else of_char c)"
  by (auto simp: lowerChar_def isUpper_def)

lemma of_char_upperChar:
  "(of_char (upperChar c) :: nat) = (if isLower c then of_char c - 32 else of_char c)"
  by (auto simp: upperChar_def isLower_def)

lemma of_char_nat_inj: "(of_char a :: nat) = of_char b \<Longrightarrow> a = b"
  by (rule of_char_eqI)

lemma lower_eq_upper_eq: "lowerChar a = lowerChar b \<Longrightarrow> upperChar a = upperChar b"
proof -
  assume "lowerChar a = lowerChar b"
  then have "(of_char (lowerChar a) :: nat) = of_char (lowerChar b)" by simp
  then have "(of_char (upperChar a) :: nat) = of_char (upperChar b)"
    unfolding of_char_lowerChar of_char_upperChar isUpper_def isLower_def
    by (auto split: if_splits)
  then show ?thesis by (rule of_char_nat_inj)
qed

lemma map_lower_eq_upper_eq:
  "map lowerChar a = map lowerChar b \<Longrightarrow> map upperChar a = map upperChar b"
proof (induction a arbitrary: b)
  case Nil
  then show ?case by simp
next
  case (Cons x a)
  then obtain y b' where b: "b = y # b'" by (cases b) auto
  with Cons show ?case by (auto dest: lower_eq_upper_eq)
qed

lemma upperChar_fixes:
  "\<not> isUpper c \<Longrightarrow> upperChar x = c \<Longrightarrow> x = c"
proof -
  assume n: "\<not> isUpper c" and e: "upperChar x = c"
  from e have "(of_char (upperChar x) :: nat) = of_char c" by simp
  with n have "(of_char x :: nat) = of_char c"
    unfolding of_char_upperChar isUpper_def isLower_def by (auto split: if_splits)
  then show ?thesis by (rule of_char_nat_inj)
qed

lemma not_letter_literals:
  "\<not> isUpper CHR ''-''" "\<not> isUpper CHR '']''" "\<not> isLower CHR ''-''" "\<not> isLower CHR '']''"
  by (simp_all add: isUpper_def isLower_def)

lemma upperChar_dash: "upperChar x = CHR ''-'' \<longleftrightarrow> x = CHR ''-''"
  using upperChar_fixes[of "CHR ''-''" x] not_letter_literals by (auto simp: upperChar_def)

lemma upperChar_bracket: "upperChar x = CHR '']'' \<longleftrightarrow> x = CHR '']''"
  using upperChar_fixes[of "CHR '']''" x] not_letter_literals by (auto simp: upperChar_def)

lemma rmatch_Lit_ok:
  "length x = length l \<Longrightarrow> map upperChar x = map upperChar l \<Longrightarrow>
   rmatch inp (Lit l) (x @ r) c k = k r c"
  by simp

lemma rmatch_Lit_fail:
  "l = a # l' \<Longrightarrow> s = [] \<or> upperChar (hd s) \<noteq> upperChar a \<Longrightarrow> rmatch inp (Lit l) s c k = None"
  by (cases s) auto

lemma rmatch_Star_all:
  "\<forall>x\<in>set w. cls_match cl x \<Longrightarrow> r = [] \<or> \<not> cls_match cl (hd r) \<Longrightarrow> k r c = Some y \<Longrightarrow>
   rmatch inp (Star cl) (w @ r) c k = Some y"
proof (induction w)
  case Nil
  then show ?case by (cases r) auto
next
  case (Cons a w)
  then show ?case by simp
qed

lemma rmatch_Star_none:
  "\<forall>j \<le> length (takeWhile (cls_match cl) s). k (drop j s) c = None \<Longrightarrow>
   rmatch inp (Star cl) s c k = None"
proof (induction s)
  case Nil
  then show ?case by simp
next
  case (Cons a s)
  show ?case
  proof (cases "cls_match cl a")
    case True
    have "\<forall>j \<le> length (takeWhile (cls_match cl) s). k (drop j s) c = None"
    proof (intro allI impI)
      fix j assume "j \<le> length (takeWhile (cls_match cl) s)"
      then have "Suc j \<le> length (takeWhile (cls_match cl) (a # s))" using True by simp
      with Cons.prems have "k (drop (Suc j) (a # s)) c = None" by blast
      then show "k (drop j s) c = None" by simp
    qed
    then have "rmatch inp (Star cl) s c k = None" by (rule Cons.IH)
    moreover from Cons.prems have "k (drop 0 (a # s)) c = None" by blast
    ultimately show ?thesis using True by simp
  next
    case False
    from Cons.prems have "k (drop 0 (a # s)) c = None" by blast
    then show ?thesis using False by simp
  qed
qed

lemma rmatch_Star_back1:
  "\<forall>x\<in>set w. cls_match cl x \<Longrightarrow> cls_match cl x0 \<Longrightarrow> r = [] \<or> \<not> cls_match cl (hd r) \<Longrightarrow>
   k r c = None \<Longrightarrow> k (x0 # r) c = Some y \<Longrightarrow>
   rmatch inp (Star cl) (w @ x0 # r) c k = Some y"
proof (induction w)
  case Nil
  then show ?case by (cases r) auto
next
  case (Cons a w)
  then show ?case by simp
qed

lemma rmatch_PlusLazy_exact:
  "t \<noteq> [] \<Longrightarrow> \<forall>x\<in>set t. cls_match cl x \<Longrightarrow>
   \<forall>j. 0 < j \<and> j < length t \<longrightarrow> k (drop j t @ r) c = None \<Longrightarrow> k r c = Some y \<Longrightarrow>
   rmatch inp (PlusLazy cl) (t @ r) c k = Some y"
proof (induction t)
  case Nil
  then show ?case by simp
next
  case (Cons a t)
  show ?case
  proof (cases "t = []")
    case True
    then show ?thesis using Cons.prems by simp
  next
    case False
    have n: "k (t @ r) c = None" using Cons.prems(3)[rule_format, of 1] False by simp
    have "\<forall>j. 0 < j \<and> j < length t \<longrightarrow> k (drop j t @ r) c = None"
    proof (intro allI impI)
      fix j assume "0 < j \<and> j < length t"
      then have "0 < Suc j \<and> Suc j < length (a # t)" by simp
      with Cons.prems(3) have "k (drop (Suc j) (a # t) @ r) c = None" by blast
      then show "k (drop j t @ r) c = None" by simp
    qed
    with Cons.IH[OF False] Cons.prems have "rmatch inp (PlusLazy cl) (t @ r) c k = Some y" by simp
    then show ?thesis using n Cons.prems by simp
  qed
qed

declare rmatch.simps [simp del]

lemma tail_match:
  assumes w6: "blank w6" and w7: "blank w7"
    and q: "q \<noteq> []" "\<not> isSpace (hd q)" "\<forall>x\<in>set q. \<not> isLineTerminator x"
  shows "rmatch inp tailRe (w6 @ '':'' @ w7 @ q) c (\<lambda>s' c'. Some c') = Some (c(4 \<mapsto> q))"
proof -
  let ?k = "\<lambda>(s'::string) (c'::caps). Some c'"
  let ?k4 = "\<lambda>s' c'. rmatch inp (Seq (Grp 4 (Plus Dot)) Eos) s' c' ?k"
  let ?k3 = "\<lambda>s' c'. rmatch inp (Seq (Star Space) (Seq (Grp 4 (Plus Dot)) Eos)) s' c' ?k"
  let ?k2 = "\<lambda>s' c'. rmatch inp (Seq (Lit '':'') (Seq (Star Space) (Seq (Grp 4 (Plus Dot)) Eos))) s' c' ?k"
  obtain a q' where qq: "q = a # q'" using q(1) by (cases q) auto
  have "rmatch inp (Star Dot) (q' @ []) c
          (\<lambda>s' c'. rmatch inp Eos s' (c'(4 \<mapsto> take (length q - length s') q)) ?k)
        = Some (c(4 \<mapsto> q))"
    by (rule rmatch_Star_all) (use q qq in \<open>auto simp: rmatch.simps(2)\<close>)
  then have g4: "?k4 q c = Some (c(4 \<mapsto> q))"
    using qq q by (simp add: rmatch.simps)
  have "rmatch inp (Star Space) (w7 @ q) c ?k4 = Some (c(4 \<mapsto> q))"
    by (rule rmatch_Star_all) (use w7 q g4 in \<open>auto simp: blank_def\<close>)
  then have s3: "?k3 (w7 @ q) c = Some (c(4 \<mapsto> q))"
    by (simp add: rmatch.simps(10))
  have l2: "?k2 ('':'' @ w7 @ q) c = Some (c(4 \<mapsto> q))"
    using s3 by (simp add: rmatch.simps(3,10))
  have "rmatch inp (Star Space) (w6 @ ('':'' @ w7 @ q)) c ?k2 = Some (c(4 \<mapsto> q))"
    by (rule rmatch_Star_all) (use w6 l2 in \<open>auto simp: blank_def isSpace_def\<close>)
  then show ?thesis
    by (simp add: tailRe_def rmatch.simps(10))
qed

lemma upperChar_space: "isSpace x \<Longrightarrow> upperChar x = x"
  by (auto simp: isSpace_def upperChar_def isLower_def)

lemma hd_drop_append:
  "j \<le> length u \<Longrightarrow> hd (drop j u @ x # rest) \<in> set u \<union> {x}"
proof (cases "j < length u")
  case True
  then have "drop j u \<noteq> []" by simp
  then have "hd (drop j u @ x # rest) = hd (drop j u)" by simp
  moreover have "hd (drop j u) \<in> set u"
    using True by (metis \<open>drop j u \<noteq> []\<close> hd_in_set in_set_dropD)
  ultimately show ?thesis by simp
next
  case False
  assume "j \<le> length u"
  with False have "drop j u = []" by simp
  then show ?thesis by simp
qed

lemma star_then_lit_none:
  assumes u: "\<forall>y\<in>set u. cls_match cl y" and x: "\<not> cls_match cl x"
    and ne: "\<forall>y\<in>set u \<union> {x}. upperChar y \<noteq> upperChar a"
  shows "rmatch inp (Star cl) (u @ x # rest) c (\<lambda>s' c'. rmatch inp (Lit (a # l')) s' c' (K' s' c')) = None"
proof (rule rmatch_Star_none, intro allI impI)
  fix j
  assume "j \<le> length (takeWhile (cls_match cl) (u @ x # rest))"
  moreover have "takeWhile (cls_match cl) (u @ x # rest) = u"
    using u x by (simp add: takeWhile_append2)
  ultimately have j: "j \<le> length u" by simp
  then have d: "drop j (u @ x # rest) = drop j u @ x # rest" by simp
  have "upperChar (hd (drop j u @ x # rest)) \<noteq> upperChar a"
    using hd_drop_append[OF j, of x rest] ne by blast
  then show "rmatch inp (Lit (a # l')) (drop j (u @ x # rest)) c (K' (drop j (u @ x # rest)) c) = None"
    unfolding d by (intro rmatch_Lit_fail[where a = a and l' = l']) auto
qed

lemma upperChar_dash_lit: "upperChar CHR ''-'' = CHR ''-''"
  by (simp add: upperChar_def not_letter_literals)

lemma upperChar_bracket_lit: "upperChar CHR '']'' = CHR '']''"
  by (simp add: upperChar_def not_letter_literals)

lemma not_space_dash: "\<not> isSpace CHR ''-''" "\<not> isSpace CHR '']''" "\<not> isSpace CHR ''[''" "\<not> isSpace CHR '':''"
  by (simp_all add: isSpace_def)

lemma not_dash_upper:
  assumes "blank u" "\<not> isSpace x" "x \<noteq> CHR ''-''"
  shows "\<forall>y\<in>set u \<union> {x}. upperChar y \<noteq> upperChar CHR ''-''"
proof
  fix y assume "y \<in> set u \<union> {x}"
  then have "y \<noteq> CHR ''-''"
    using assms not_space_dash(1) by (auto simp: blank_def)
  then show "upperChar y \<noteq> upperChar CHR ''-''"
    unfolding upperChar_dash_lit using upperChar_dash[of y] by simp
qed

lemma arrow_blocked:
  assumes "blank u" "\<not> isSpace x" "x \<noteq> CHR ''-''"
  shows "rmatch inp arrowRe (u @ x # rest) c K = None"
proof -
  have "\<forall>y\<in>set u. cls_match Space y" using assms(1) by (simp add: blank_def)
  moreover have "\<not> cls_match Space x" using assms(2) by simp
  ultimately show ?thesis
    unfolding arrowRe_def seqs.simps alts.simps rmatch.simps(10)
    by (rule star_then_lit_none) (rule not_dash_upper[OF assms])
qed

lemma not_bracket_upper:
  assumes "blank u" "\<not> isSpace x" "x \<noteq> CHR '']''"
  shows "\<forall>y\<in>set u \<union> {x}. upperChar y \<noteq> upperChar CHR '']''"
proof
  fix y assume "y \<in> set u \<union> {x}"
  then have "y \<noteq> CHR '']''"
    using assms not_space_dash(2) by (auto simp: blank_def)
  then show "upperChar y \<noteq> upperChar CHR '']''"
    unfolding upperChar_bracket_lit using upperChar_bracket[of y] by simp
qed

lemma close_blocked:
  assumes "blank u" "\<not> isSpace x" "x \<noteq> CHR '']''"
  shows "rmatch inp (Seq (Star Space) (Lit '']'')) (u @ x # rest) c K = None"
proof -
  have "\<forall>y\<in>set u. cls_match Space y" using assms(1) by (simp add: blank_def)
  moreover have "\<not> cls_match Space x" using assms(2) by simp
  ultimately show ?thesis
    unfolding rmatch.simps(10)
    by (rule star_then_lit_none) (rule not_bracket_upper[OF assms])
qed

lemma close_match:
  assumes "blank w" "K T c = Some y"
  shows "rmatch inp (Seq (Star Space) (Lit '']'')) (w @ '']'' @ T) c K = Some y"
proof -
  have "rmatch inp (Star Space) (w @ ('']'' @ T)) c (\<lambda>s' c'. rmatch inp (Lit '']'') s' c' K) = Some y"
  proof (rule rmatch_Star_all)
    show "\<forall>x\<in>set w. cls_match Space x" using assms(1) by (simp add: blank_def)
    show "'']'' @ T = [] \<or> \<not> cls_match Space (hd ('']'' @ T))" by (simp add: isSpace_def)
    show "rmatch inp (Lit '']'') ('']'' @ T) c K = Some y"
      using assms(2) by (simp add: rmatch.simps(3))
  qed
  then show ?thesis by (simp add: rmatch.simps(10))
qed

lemma afterHint_unfold:
  "rmatch inp afterHintRe s c K =
     (case rmatch inp arrowRe s c
             (\<lambda>s' c'. if length s' = length s then None
                       else rmatch inp (Seq (Star Space) (Lit '']'')) s' c' K) of
        Some r \<Rightarrow> Some r
      | None \<Rightarrow> rmatch inp (Seq (Star Space) (Lit '']'')) s c K)"
  by (simp only: afterHintRe_def seqs.simps rmatch.simps(10) rmatch.simps(12))

lemma afterHint_blocked:
  assumes "blank u" "\<not> isSpace x" "x \<noteq> CHR ''-''" "x \<noteq> CHR '']''"
  shows "rmatch inp afterHintRe (u @ x # rest) c K = None"
  unfolding afterHint_unfold
  by (simp only: arrow_blocked[OF assms(1,2,3)] close_blocked[OF assms(1,2,4)] option.case)

lemma afterHint_plain:
  assumes "blank w3" "K T c = Some y"
  shows "rmatch inp afterHintRe (w3 @ '']'' @ T) c K = Some y"
proof -
  have "rmatch inp arrowRe (w3 @ CHR '']'' # T) c
          (\<lambda>s' c'. if length s' = length (w3 @ CHR '']'' # T) then None
                    else rmatch inp (Seq (Star Space) (Lit '']'')) s' c' K) = None"
    by (rule arrow_blocked) (use assms(1) in \<open>auto simp: isSpace_def\<close>)
  then show ?thesis
    unfolding afterHint_unfold
    using close_match[where K = K and T = T and c = c and y = y and inp = inp, OF assms]
    by simp
qed

lemma arrow_match:
  assumes w3: "blank w3" and w4: "blank w4"
    and d: "map upperChar d = map upperChar ''inward'' \<or> map upperChar d = map upperChar ''outward''"
    and k: "K' R (c(3 \<mapsto> d)) = Some y"
  shows "rmatch inp arrowRe (w3 @ ''->'' @ w4 @ d @ R) c K' = Some y"
proof -
  let ?alt = "Alt (Lit ''inward'') (Lit ''outward'')"
  let ?kg = "\<lambda>s' c'. K' s' (c'(3 \<mapsto> take (length (d @ R) - length s') (d @ R)))"
  have "length (map upperChar d) = 6 \<or> length (map upperChar d) = 7"
    using d by (elim disjE) (simp_all only: length_map list.size, simp_all)
  then have len: "length d = 6 \<or> length d = 7" by simp
  have kg: "?kg R c = Some y" using k by simp
  have alt: "rmatch inp ?alt (d @ R) c ?kg = Some y"
  proof (cases "map upperChar d = map upperChar ''inward''")
    case True
    then have "length d = length ''inward''" by (metis length_map)
    then have "rmatch inp (Lit ''inward'') (d @ R) c ?kg = ?kg R c"
      using True by (rule rmatch_Lit_ok)
    then show ?thesis using kg by (simp add: rmatch.simps(11))
  next
    case False
    with d have o: "map upperChar d = map upperChar ''outward''" by simp
    then have lo: "length d = length ''outward''" by (metis length_map)
    then obtain x d' where dd: "d = x # d'" by (cases d) auto
    have "upperChar x = upperChar CHR ''o''" using o dd by simp
    moreover have "upperChar CHR ''o'' \<noteq> upperChar CHR ''i''" by code_simp
    ultimately have "rmatch inp (Lit ''inward'') (d @ R) c ?kg = None"
      using dd by (intro rmatch_Lit_fail[where a = "CHR ''i''" and l' = "''nward''"]) auto
    moreover have "rmatch inp (Lit ''outward'') (d @ R) c ?kg = ?kg R c"
      using lo o by (rule rmatch_Lit_ok)
    ultimately show ?thesis using kg by (simp add: rmatch.simps(11))
  qed
  have g3: "rmatch inp (Grp 3 ?alt) (d @ R) c K' = Some y"
    using alt by (simp add: rmatch.simps(13))
  have hd_d: "\<not> isSpace (hd (d @ R))"
  proof -
    obtain x d' where dd: "d = x # d'" using len by (cases d) auto
    have "upperChar x = upperChar CHR ''i'' \<or> upperChar x = upperChar CHR ''o''"
      using d dd by auto
    moreover have "\<not> isSpace (upperChar CHR ''i'')" "\<not> isSpace (upperChar CHR ''o'')"
      by code_simp+
    ultimately have "\<not> isSpace x" using upperChar_space[of x] by metis
    then show ?thesis using dd by simp
  qed
  have s4: "rmatch inp (Star Space) (w4 @ (d @ R)) c (\<lambda>s' c'. rmatch inp (Grp 3 ?alt) s' c' K') = Some y"
  proof (rule rmatch_Star_all)
    show "\<forall>x\<in>set w4. cls_match Space x" using w4 by (simp add: blank_def)
    show "d @ R = [] \<or> \<not> cls_match Space (hd (d @ R))" using hd_d by simp
    show "rmatch inp (Grp 3 ?alt) (d @ R) c K' = Some y" by (rule g3)
  qed
  have l: "rmatch inp (Lit ''->'') (''->'' @ w4 @ d @ R) c
             (\<lambda>s' c'. rmatch inp (Star Space) s' c' (\<lambda>s' c'. rmatch inp (Grp 3 ?alt) s' c' K')) = Some y"
    using s4 by (simp add: rmatch.simps(3))
  have "rmatch inp (Star Space) (w3 @ (''->'' @ w4 @ d @ R)) c
          (\<lambda>s' c'. rmatch inp (Lit ''->'') s' c'
             (\<lambda>s' c'. rmatch inp (Star Space) s' c' (\<lambda>s' c'. rmatch inp (Grp 3 ?alt) s' c' K'))) = Some y"
  proof (rule rmatch_Star_all)
    show "\<forall>x\<in>set w3. cls_match Space x" using w3 by (simp add: blank_def)
    show "''->'' @ w4 @ d @ R = [] \<or> \<not> cls_match Space (hd (''->'' @ w4 @ d @ R))"
      by (simp add: isSpace_def)
    show "rmatch inp (Lit ''->'') (''->'' @ w4 @ d @ R) c
             (\<lambda>s' c'. rmatch inp (Star Space) s' c' (\<lambda>s' c'. rmatch inp (Grp 3 ?alt) s' c' K')) = Some y"
      by (rule l)
  qed
  then show ?thesis
    by (simp add: arrowRe_def rmatch.simps(10))
qed

lemma afterHint_arrow:
  assumes w3: "blank w3" and w4: "blank w4" and w5: "blank w5"
    and d: "map upperChar d = map upperChar ''inward'' \<or> map upperChar d = map upperChar ''outward''"
    and k: "K T (c(3 \<mapsto> d)) = Some y"
  shows "rmatch inp afterHintRe (w3 @ ''->'' @ w4 @ d @ w5 @ '']'' @ T) c K = Some y"
proof -
  let ?s = "w3 @ ''->'' @ w4 @ d @ w5 @ '']'' @ T"
  let ?K' = "\<lambda>s' c'. if length s' = length ?s then None
                       else rmatch inp (Seq (Star Space) (Lit '']'')) s' c' K"
  have "rmatch inp (Seq (Star Space) (Lit '']'')) (w5 @ '']'' @ T) (c(3 \<mapsto> d)) K = Some y"
    using w5 k by (rule close_match)
  then have "?K' (w5 @ '']'' @ T) (c(3 \<mapsto> d)) = Some y" by simp
  then have "rmatch inp arrowRe (w3 @ ''->'' @ w4 @ d @ (w5 @ '']'' @ T)) c ?K' = Some y"
    by (rule arrow_match[OF w3 w4 d])
  then show ?thesis
    unfolding afterHint_unfold by simp
qed

lemma split_at_nonspace:
  assumes "r \<noteq> []" "\<not> isSpace (last r)"
  shows "\<exists>u x r'. r = u @ x # r' \<and> blank u \<and> \<not> isSpace x \<and> x \<in> set r"
proof -
  have "last r \<in> set r" using assms(1) by simp
  with assms(2) have "dropWhile isSpace r \<noteq> []" by auto
  then obtain x r' where dw: "dropWhile isSpace r = x # r'" by (cases "dropWhile isSpace r") auto
  have x: "\<not> isSpace x" using dw by (metis hd_dropWhile list.sel(1) list.distinct(1))
  have xin: "x \<in> set r" using dw by (metis list.set_intros(1) set_dropWhileD)
  have "r = takeWhile isSpace r @ x # r'" using dw by (metis takeWhile_dropWhile_id)
  moreover have "blank (takeWhile isSpace r)"
    by (auto simp: blank_def dest: set_takeWhileD)
  ultimately show ?thesis using x xin by blast
qed

lemma hint_match:
  assumes t: "t \<noteq> []" "\<forall>x\<in>set t. x \<noteq> CHR '']'' \<and> x \<noteq> CHR ''-''"
             "\<not> isSpace (hd t)" "\<not> isSpace (last t)"
    and w2: "blank w2"
    and k: "rmatch inp afterHintRe R (c(2 \<mapsto> t)) K = Some y"
  shows "rmatch inp hintRe (w2 @ t @ R) c K = Some y"
proof -
  let ?k2 = "\<lambda>s' c'. rmatch inp afterHintRe s' (c'(2 \<mapsto> take (length (t @ R) - length s') (t @ R))) K"
  have pl: "rmatch inp (PlusLazy NotBracketDash) (t @ R) c ?k2 = Some y"
  proof (rule rmatch_PlusLazy_exact)
    show "t \<noteq> []" by (rule t(1))
    show "\<forall>x\<in>set t. cls_match NotBracketDash x" using t(2) by simp
    show "?k2 R c = Some y" using k by simp
    show "\<forall>j. 0 < j \<and> j < length t \<longrightarrow> ?k2 (drop j t @ R) c = None"
    proof (intro allI impI)
      fix j assume j: "0 < j \<and> j < length t"
      then have ne: "drop j t \<noteq> []" by simp
      then have "last (drop j t) = last t" using j by simp
      with t(4) have "\<not> isSpace (last (drop j t))" by simp
      from split_at_nonspace[OF ne this]
      obtain u x r' where sp: "drop j t = u @ x # r'" "blank u" "\<not> isSpace x" "x \<in> set (drop j t)"
        by blast
      from sp(4) have "x \<in> set t" by (rule in_set_dropD)
      with t(2) have xx: "x \<noteq> CHR ''-''" "x \<noteq> CHR '']''" by auto
      have "rmatch inp afterHintRe (u @ x # (r' @ R))
              (c(2 \<mapsto> take (length (t @ R) - length (drop j t @ R)) (t @ R))) K = None"
        using sp(2,3) xx by (rule afterHint_blocked)
      then show "?k2 (drop j t @ R) c = None" using sp(1) by simp
    qed
  qed
  have g: "rmatch inp (Seq (Grp 2 (PlusLazy NotBracketDash)) afterHintRe) (t @ R) c K = Some y"
    using pl by (simp add: rmatch.simps(10,13))
  have "rmatch inp (Star Space) (w2 @ (t @ R)) c
          (\<lambda>s' c'. rmatch inp (Seq (Grp 2 (PlusLazy NotBracketDash)) afterHintRe) s' c' K) = Some y"
  proof (rule rmatch_Star_all)
    show "\<forall>x\<in>set w2. cls_match Space x" using w2 by (simp add: blank_def)
    show "t @ R = [] \<or> \<not> cls_match Space (hd (t @ R))" using t(1,3) by simp
    show "rmatch inp (Seq (Grp 2 (PlusLazy NotBracketDash)) afterHintRe) (t @ R) c K = Some y"
      by (rule g)
  qed
  then show ?thesis by (simp add: hintRe_def rmatch.simps(10))
qed

lemma hint_blank_match:
  assumes w2: "blank w2" and x0: "isSpace x0"
    and k: "rmatch inp afterHintRe (CHR ''-'' # R') (c(2 \<mapsto> [x0])) K = Some y"
  shows "rmatch inp hintRe (w2 @ x0 # CHR ''-'' # R') c K = Some y"
proof -
  let ?kk = "\<lambda>s' c'. rmatch inp (Seq (Grp 2 (PlusLazy NotBracketDash)) afterHintRe) s' c' K"
  have x0n: "x0 \<noteq> CHR '']''" "x0 \<noteq> CHR ''-''" using x0 by (auto simp: isSpace_def)
  have "rmatch inp (Star Space) (w2 @ x0 # (CHR ''-'' # R')) c ?kk = Some y"
  proof (rule rmatch_Star_back1)
    show "\<forall>x\<in>set w2. cls_match Space x" using w2 by (simp add: blank_def)
    show "cls_match Space x0" using x0 by simp
    show "CHR ''-'' # R' = [] \<or> \<not> cls_match Space (hd (CHR ''-'' # R'))" by (simp add: isSpace_def)
    show "?kk (CHR ''-'' # R') c = None" by (simp add: rmatch.simps(7,10,13))
    show "?kk (x0 # CHR ''-'' # R') c = Some y"
      using k x0n by (simp add: rmatch.simps(7,10,13))
  qed
  then show ?thesis by (simp add: hintRe_def rmatch.simps(10))
qed

lemma bracket_match:
  assumes w1: "blank w1" and h: "rmatch inp hintRe H c K = Some y"
  shows "rmatch inp (Seq (Star Space) (Seq (Lit ''['') hintRe)) (w1 @ ''['' @ H) c K = Some y"
proof -
  have "rmatch inp (Star Space) (w1 @ (''['' @ H)) c (\<lambda>s' c'. rmatch inp (Seq (Lit ''['') hintRe) s' c' K) = Some y"
  proof (rule rmatch_Star_all)
    show "\<forall>x\<in>set w1. cls_match Space x" using w1 by (simp add: blank_def)
    show "''['' @ H = [] \<or> \<not> cls_match Space (hd (''['' @ H))" by (simp add: isSpace_def)
    show "rmatch inp (Seq (Lit ''['') hintRe) (''['' @ H) c K = Some y"
      using h by (simp add: rmatch.simps(3,10))
  qed
  then show ?thesis by (simp add: rmatch.simps(10))
qed

lemma argPattern_unfold:
  "argPattern = Seq Bos (Seq modeRe (Seq (Opt (Seq (Star Space) (Seq (Lit ''['') hintRe))) tailRe))"
  by (simp add: argPattern_def modeRe_def hintRe_def afterHintRe_def arrowRe_def tailRe_def)

lemma mode_match:
  assumes md: "map upperChar md = map upperChar ''linked''" and k: "K R (c(1 \<mapsto> md)) = Some y"
  shows "rmatch inp modeRe (md @ R) c K = Some y"
proof -
  let ?kg = "\<lambda>s' c'. K s' (c'(1 \<mapsto> take (length (md @ R) - length s') (md @ R)))"
  have len: "length md = length ''linked''" using md by (metis length_map)
  then obtain x md' where mm: "md = x # md'" by (cases md) auto
  have x: "upperChar x = upperChar CHR ''l''" using md mm by simp
  have ne: "upperChar CHR ''l'' \<noteq> upperChar CHR ''p''" "upperChar CHR ''l'' \<noteq> upperChar CHR ''e''"
    by code_simp+
  have p: "rmatch inp (Lit ''parent'') (md @ R) c ?kg = None"
    using mm x ne by (intro rmatch_Lit_fail[where a = "CHR ''p''" and l' = "''arent''"]) auto
  have e: "rmatch inp (Lit ''epic-of'') (md @ R) c ?kg = None"
    using mm x ne by (intro rmatch_Lit_fail[where a = "CHR ''e''" and l' = "''pic-of''"]) auto
  have l: "rmatch inp (Lit ''linked'') (md @ R) c ?kg = ?kg R c"
    using len md by (rule rmatch_Lit_ok)
  have "?kg R c = Some y" using k by simp
  with p e l show ?thesis
    by (simp add: modeRe_def rmatch.simps(11,13))
qed

lemma whole_match:
  assumes md: "map upperChar md = map upperChar ''linked''" and w1: "blank w1"
    and s: "s = md @ w1 @ ''['' @ HT"
    and h: "rmatch s hintRe HT (Map.empty(1 \<mapsto> md))
              (\<lambda>s' c'. if length s' = length (w1 @ ''['' @ HT) then None
                        else rmatch s tailRe s' c' (\<lambda>s' c'. Some c')) = Some y"
  shows "str_match s argPattern = Some y"
proof -
  let ?s1 = "w1 @ ''['' @ HT"
  let ?Kb = "\<lambda>s' c'. if length s' = length ?s1 then None
                       else rmatch s tailRe s' c' (\<lambda>s' c'. Some c')"
  let ?rest = "Seq (Opt (Seq (Star Space) (Seq (Lit ''['') hintRe))) tailRe"
  have b: "rmatch s (Seq (Star Space) (Seq (Lit ''['') hintRe)) ?s1 (Map.empty(1 \<mapsto> md)) ?Kb = Some y"
    using w1 h by (rule bracket_match)
  have "rmatch s (Opt (Seq (Star Space) (Seq (Lit ''['') hintRe))) ?s1 (Map.empty(1 \<mapsto> md))
          (\<lambda>s' c'. rmatch s tailRe s' c' (\<lambda>s' c'. Some c')) = Some y"
    unfolding rmatch.simps(12) using b by simp
  then have o: "rmatch s ?rest ?s1 (Map.empty(1 \<mapsto> md)) (\<lambda>s' c'. Some c') = Some y"
    unfolding rmatch.simps(10)[of s "Opt (Seq (Star Space) (Seq (Lit ''['') hintRe))" tailRe] .
  have m: "rmatch s modeRe (md @ ?s1) Map.empty
             (\<lambda>s' c'. rmatch s ?rest s' c' (\<lambda>s' c'. Some c')) = Some y"
    by (rule mode_match[OF md]) (rule o)
  have "rmatch s (Seq modeRe ?rest) s Map.empty (\<lambda>s' c'. Some c') = Some y"
    unfolding rmatch.simps(10)[of s modeRe ?rest] using m s by simp
  then have a: "rmatch s argPattern s Map.empty (\<lambda>s' c'. Some c') = Some y"
    unfolding argPattern_unfold rmatch.simps(10)[of s Bos] rmatch.simps(1) by simp
  have "length md = length ''linked''" using md by (metis length_map)
  then obtain x s' where "s = x # s'" using s by (cases md) auto
  then show ?thesis using a by (simp add: str_match_def)
qed

lemma trim_core:
  assumes "blank w0" "blank w8" "s \<noteq> []" "\<not> isSpace (hd s)" "\<not> isSpace (last s)"
  shows "trim (w0 @ s @ w8) = s"
proof -
  have a: "dropWhile isSpace (w0 @ s @ w8) = s @ w8"
    using assms(1,3,4) by (cases s) (auto simp: blank_def dropWhile_append2)
  have b: "dropWhile isSpace (rev w8 @ rev s) = rev s"
  proof -
    have e: "dropWhile isSpace (rev w8 @ rev s) = dropWhile isSpace (rev s)"
      by (rule dropWhile_append2) (use assms(2) in \<open>simp add: blank_def\<close>)
    obtain z zs where r: "rev s = z # zs" using assms(3) by (cases "rev s") auto
    then have "z = last s" using assms(3) by (metis hd_rev list.sel(1))
    with assms(5) have "dropWhile isSpace (z # zs) = z # zs" by simp
    then have "dropWhile isSpace (rev s) = rev s" unfolding r .
    then show ?thesis by (simp only: e)
  qed
  show ?thesis unfolding trim_def a using b by simp
qed

lemma trim_id: "s \<noteq> [] \<Longrightarrow> \<not> isSpace (hd s) \<Longrightarrow> \<not> isSpace (last s) \<Longrightarrow> trim s = s"
  using trim_core[of "[]" "[]" s] by (simp add: blank_def)

lemma parseArg_of_match:
  assumes "trim raw = s" "s \<noteq> []" "str_match s argPattern = Some m"
    and "toLowerCase (grp m 1) = ''linked''"
  shows "parseArg (Some raw) =
           \<lparr>mode = ''linked'',
            linkFilter =
              (if trim (grp m 2) \<noteq> [] \<or> toLowerCase (grp m 3) \<noteq> []
               then Some \<lparr>typeHint = trim (grp m 2),
                          direction = (if toLowerCase (grp m 3) = ''inward'' then Some Inward
                                       else if toLowerCase (grp m 3) = ''outward'' then Some Outward
                                       else None)\<rparr>
               else None),
            innerJql = trim (grp m 4)\<rparr>"
  using assms by (simp add: parseArg_def Let_def str_or_empty_def)

lemma lower_word_upper:
  "toLowerCase d = toLowerCase w \<Longrightarrow> map upperChar d = map upperChar w"
  unfolding toLowerCase_def by (rule map_lower_eq_upper_eq)

lemma lower_literals:
  "toLowerCase ''linked'' = ''linked''" "toLowerCase ''inward'' = ''inward''"
  "toLowerCase ''outward'' = ''outward''"
  by code_simp+

lemma letter_not_space:
  assumes "map upperChar w = map upperChar (a # l)" "\<not> isSpace (upperChar a)"
  shows "w \<noteq> [] \<and> \<not> isSpace (hd w)"
proof -
  obtain x w' where w: "w = x # w'" using assms(1) by (cases w) auto
  then have "upperChar x = upperChar a" using assms(1) by simp
  then have "\<not> isSpace x" using assms(2) upperChar_space[of x] by metis
  then show ?thesis using w by simp
qed

lemma filter_match:
  assumes mdu: "map upperChar md = map upperChar ''linked''"
    and ws: "blank w1" "blank w2" "blank w3" "blank w6" "blank w7"
    and arrow: "arrowOk arrow"
    and hint: "\<forall>x\<in>set hint. x \<noteq> CHR '']'' \<and> x \<noteq> CHR ''-''"
              "hint \<noteq> [] \<longrightarrow> \<not> isSpace (hd hint) \<and> \<not> isSpace (last hint)"
              "hint = [] \<longrightarrow> arrow \<noteq> None \<and> w2 @ w3 \<noteq> []"
    and q: "q \<noteq> []" "\<not> isSpace (hd q)" "\<forall>x\<in>set q. \<not> isLineTerminator x"
  shows "\<exists>m. str_match (filterArg md w1 w2 hint w3 arrow w6 w7 q) argPattern = Some m
             \<and> m 1 = Some md
             \<and> m 2 = Some (if hint = [] then [last (w2 @ w3)] else hint)
             \<and> m 3 = (case arrow of None \<Rightarrow> None | Some (w4, d, w5) \<Rightarrow> Some d)
             \<and> m 4 = Some q"
proof -
  define T where "T = w6 @ '':'' @ w7 @ q"
  define A where "A = arrowText arrow @ '']'' @ T"
  define HT where "HT = w2 @ hint @ w3 @ A"
  define s where "s = md @ w1 @ ''['' @ HT"
  define Kb where "Kb = (\<lambda>(s'::string) (c'::caps). if length s' = length (w1 @ ''['' @ HT) then None
                          else rmatch s tailRe s' c' (\<lambda>s' c'. Some c'))"
  define c1 :: caps where "c1 = Map.empty(1 \<mapsto> md)"
  have s_eq: "filterArg md w1 w2 hint w3 arrow w6 w7 q = s"
    by (simp add: filterArg_def s_def HT_def A_def T_def)
  have lenT: "length T \<noteq> length (w1 @ ''['' @ HT)"
    by (simp add: HT_def A_def)
  have tailK: "Kb T c = Some (c(4 \<mapsto> q))" for c
    using tail_match[OF ws(4,5) q, of s c] lenT by (simp add: Kb_def T_def)
  have h: "\<exists>m. rmatch s hintRe HT c1 Kb = Some m
             \<and> m 1 = Some md
             \<and> m 2 = Some (if hint = [] then [last (w2 @ w3)] else hint)
             \<and> m 3 = (case arrow of None \<Rightarrow> None | Some (w4, d, w5) \<Rightarrow> Some d)
             \<and> m 4 = Some q"
  proof (cases arrow)
    case None
    with hint(3) have hn: "hint \<noteq> []" by auto
    have "rmatch s afterHintRe (w3 @ '']'' @ T) (c1(2 \<mapsto> hint)) Kb = Some (c1(2 \<mapsto> hint, 4 \<mapsto> q))"
      using ws(3) tailK by (rule afterHint_plain)
    then have "rmatch s hintRe (w2 @ hint @ (w3 @ '']'' @ T)) c1 Kb = Some (c1(2 \<mapsto> hint, 4 \<mapsto> q))"
      using hn hint(1,2) ws(2) by (intro hint_match) auto
    then show ?thesis using None hn
      by (simp add: HT_def A_def arrowText_def c1_def)
  next
    case (Some tr)
    obtain w4 d w5 where tr: "tr = (w4, d, w5)" by (cases tr) auto
    have ok: "blank w4" "blank w5" "toLowerCase d = ''inward'' \<or> toLowerCase d = ''outward''"
      using arrow Some tr by (auto simp: arrowOk_def)
    have du: "map upperChar d = map upperChar ''inward'' \<or> map upperChar d = map upperChar ''outward''"
    proof (rule disjE[OF ok(3)])
      assume "toLowerCase d = ''inward''"
      then have "toLowerCase d = toLowerCase ''inward''" by (simp only: lower_literals(2))
      then show ?thesis by (intro disjI1 lower_word_upper)
    next
      assume "toLowerCase d = ''outward''"
      then have "toLowerCase d = toLowerCase ''outward''" by (simp only: lower_literals(3))
      then show ?thesis by (intro disjI2 lower_word_upper)
    qed
    have At: "A = ''->'' @ w4 @ d @ w5 @ '']'' @ T"
      using Some tr by (simp add: A_def arrowText_def)
    show ?thesis
    proof (cases "hint = []")
      case False
      have "rmatch s afterHintRe (w3 @ ''->'' @ w4 @ d @ w5 @ '']'' @ T) (c1(2 \<mapsto> hint)) Kb
              = Some (c1(2 \<mapsto> hint, 3 \<mapsto> d, 4 \<mapsto> q))"
        using ws(3) ok(1,2) du tailK by (rule afterHint_arrow)
      then have "rmatch s hintRe (w2 @ hint @ (w3 @ ''->'' @ w4 @ d @ w5 @ '']'' @ T)) c1 Kb
              = Some (c1(2 \<mapsto> hint, 3 \<mapsto> d, 4 \<mapsto> q))"
        using False hint(1,2) ws(2) by (intro hint_match) auto
      then show ?thesis using Some tr False
        by (simp add: HT_def At c1_def)
    next
      case True
      with hint(3) have "w2 @ w3 \<noteq> []" by simp
      then obtain W x0 where W: "w2 @ w3 = W @ [x0]" by (metis rev_exhaust)
      have bw: "blank (w2 @ w3)" using ws(2,3) by (auto simp: blank_def)
      then have bW: "blank W" and x0: "isSpace x0" unfolding W by (auto simp: blank_def)
      have l: "last (w2 @ w3) = x0" unfolding W by simp
      have "blank []" by (simp add: blank_def)
      then have "rmatch s afterHintRe ([] @ ''->'' @ w4 @ d @ w5 @ '']'' @ T) (c1(2 \<mapsto> [x0])) Kb
              = Some (c1(2 \<mapsto> [x0], 3 \<mapsto> d, 4 \<mapsto> q))"
        using ok(1,2) du tailK by (rule afterHint_arrow)
      then have "rmatch s afterHintRe (CHR ''-'' # (''>'' @ w4 @ d @ w5 @ '']'' @ T)) (c1(2 \<mapsto> [x0])) Kb
              = Some (c1(2 \<mapsto> [x0], 3 \<mapsto> d, 4 \<mapsto> q))"
        by simp
      with bW x0 have "rmatch s hintRe (W @ x0 # CHR ''-'' # (''>'' @ w4 @ d @ w5 @ '']'' @ T)) c1 Kb
              = Some (c1(2 \<mapsto> [x0], 3 \<mapsto> d, 4 \<mapsto> q))"
        by (rule hint_blank_match)
      moreover have "HT = W @ x0 # CHR ''-'' # (''>'' @ w4 @ d @ w5 @ '']'' @ T)"
        using True W by (simp add: HT_def At)
      ultimately show ?thesis using Some tr True l
        by (simp add: c1_def)
    qed
  qed
  then obtain m where m: "rmatch s hintRe HT c1 Kb = Some m"
      "m 1 = Some md" "m 2 = Some (if hint = [] then [last (w2 @ w3)] else hint)"
      "m 3 = (case arrow of None \<Rightarrow> None | Some (w4, d, w5) \<Rightarrow> Some d)" "m 4 = Some q"
    by blast
  have "str_match s argPattern = Some m"
    using mdu ws(1) s_def m(1)[unfolded Kb_def c1_def] by (rule whole_match)
  then show ?thesis using m(2-5) unfolding s_eq by blast
qed

text \<open>
  The filter clause in general: a type hint without \<open>]\<close> and \<open>-\<close> that neither starts
  nor ends with white space, or no hint at all when an arrow follows and white space
  stands between the opening bracket and the arrow.
\<close>

lemma parseArg_filter_general:
  assumes md: "toLowerCase md = ''linked''"
    and ws: "blank w0" "blank w1" "blank w2" "blank w3" "blank w6" "blank w7" "blank w8"
    and arrow: "arrowOk arrow"
    and hint: "\<forall>x\<in>set hint. x \<noteq> CHR '']'' \<and> x \<noteq> CHR ''-''"
              "hint \<noteq> [] \<longrightarrow> \<not> isSpace (hd hint) \<and> \<not> isSpace (last hint)"
              "hint = [] \<longrightarrow> arrow \<noteq> None \<and> w2 @ w3 \<noteq> []"
    and q: "q \<noteq> []" "\<not> isSpace (hd q)" "\<not> isSpace (last q)" "\<forall>x\<in>set q. \<not> isLineTerminator x"
  shows "parseArg (Some (w0 @ filterArg md w1 w2 hint w3 arrow w6 w7 q @ w8))
           = \<lparr>mode = ''linked'',
              linkFilter = Some \<lparr>typeHint = hint, direction = directionWord arrow\<rparr>,
              innerJql = q\<rparr>"
proof -
  define s where "s = filterArg md w1 w2 hint w3 arrow w6 w7 q"
  have "toLowerCase md = toLowerCase ''linked''" using md by (simp only: lower_literals(1))
  then have mdu: "map upperChar md = map upperChar ''linked''" by (rule lower_word_upper)
  have nl: "\<not> isSpace (upperChar CHR ''l'')" by code_simp
  have mdn: "md \<noteq> [] \<and> \<not> isSpace (hd md)"
    by (rule letter_not_space[of md "CHR ''l''" "''inked''", OF mdu nl])
  have sne: "s \<noteq> []" using mdn by (simp add: s_def filterArg_def)
  have hds: "\<not> isSpace (hd s)" using mdn by (simp add: s_def filterArg_def)
  have "last s = last q" using q(1) by (simp add: s_def filterArg_def)
  then have lasts: "\<not> isSpace (last s)" using q(3) by simp
  have tr: "trim (w0 @ s @ w8) = s"
    using ws(1,7) sne hds lasts by (rule trim_core)
  from filter_match[OF mdu ws(2,3,4,5,6) arrow hint q(1,2,4)]
  obtain m where m: "str_match s argPattern = Some m" "m 1 = Some md"
      "m 2 = Some (if hint = [] then [last (w2 @ w3)] else hint)"
      "m 3 = (case arrow of None \<Rightarrow> None | Some (w4, d, w5) \<Rightarrow> Some d)" "m 4 = Some q"
    unfolding s_def by blast
  have g1: "toLowerCase (grp m 1) = ''linked''"
    using m(2) md by (simp add: grp_def str_or_empty_def)
  have g2: "trim (grp m 2) = hint"
  proof (cases "hint = []")
    case True
    with hint(3) have "w2 @ w3 \<noteq> []" by simp
    moreover have "blank (w2 @ w3)" using ws(3,4) by (auto simp: blank_def)
    ultimately have "isSpace (last (w2 @ w3))"
      unfolding blank_def using last_in_set by blast
    then have "trim [last (w2 @ w3)] = []" by (intro trim_blank) simp
    then show ?thesis using True m(3) by (simp add: grp_def str_or_empty_def)
  next
    case False
    then have "trim hint = hint" using hint(2) by (intro trim_id) auto
    then show ?thesis using False m(3) by (simp add: grp_def str_or_empty_def)
  qed
  have g4: "trim (grp m 4) = q"
    using m(5) trim_id[OF q(1,2,3)] by (simp add: grp_def str_or_empty_def)
  have le: "toLowerCase [] = []" by (simp add: toLowerCase_def)
  have g3: "(if toLowerCase (grp m 3) = ''inward'' then Some Inward
             else if toLowerCase (grp m 3) = ''outward'' then Some Outward else None)
            = directionWord arrow"
    using m(4) by (cases arrow) (auto simp: grp_def str_or_empty_def directionWord_def le)
  have ne: "trim (grp m 2) \<noteq> [] \<or> toLowerCase (grp m 3) \<noteq> []"
  proof (cases arrow)
    case None
    with hint(3) have "hint \<noteq> []" by auto
    then show ?thesis using g2 by simp
  next
    case (Some t)
    obtain w4 d w5 where "t = (w4, d, w5)" by (cases t) auto
    with Some arrow m(4) have "toLowerCase (grp m 3) = ''inward'' \<or> toLowerCase (grp m 3) = ''outward''"
      by (auto simp: arrowOk_def grp_def str_or_empty_def)
    then show ?thesis by auto
  qed
  show ?thesis
    unfolding s_def[symmetric] parseArg_of_match[OF tr sne m(1) g1] g2 g3 g4
    using ne g2 by simp
qed

text \<open>
  The direction-only clause is read as a filter when white space stands between the
  opening bracket and the arrow: the last white-space character is taken as the hint
  and trimmed away.
\<close>

lemma parseArg_direction_only_with_space:
  assumes "toLowerCase md = ''linked''" "blank w1" "blank w2" "w2 \<noteq> []" "blank w4" "blank w5"
    and "toLowerCase d = ''inward'' \<or> toLowerCase d = ''outward''"
    and "blank w6" "blank w7"
    and "q \<noteq> []" "\<not> isSpace (hd q)" "\<not> isSpace (last q)" "\<forall>x\<in>set q. \<not> isLineTerminator x"
  shows "parseArg (Some (md @ w1 @ ''['' @ w2 @ ''->'' @ w4 @ d @ w5 @ '']'' @ w6 @ '':'' @ w7 @ q))
           = \<lparr>mode = ''linked'',
              linkFilter = Some \<lparr>typeHint = [], direction = directionWord (Some (w4, d, w5))\<rparr>,
              innerJql = q\<rparr>"
proof -
  have b: "blank []" by (simp add: blank_def)
  have a: "arrowOk (Some (w4, d, w5))" using assms(5,6,7) by (simp add: arrowOk_def)
  have "parseArg (Some ([] @ filterArg md w1 w2 [] [] (Some (w4, d, w5)) w6 w7 q @ []))
           = \<lparr>mode = ''linked'',
              linkFilter = Some \<lparr>typeHint = [], direction = directionWord (Some (w4, d, w5))\<rparr>,
              innerJql = q\<rparr>"
    using assms(1) b assms(2,3) b assms(8,9) b a
    by (rule parseArg_filter_general) (use assms in simp_all)
  then show ?thesis by (simp add: filterArg_def arrowText_def)
qed

text \<open>
  Claim C4, as stated, fails. The direction-only clause written without white space
  before the arrow is not read as a filter: the pattern does not match and the whole
  argument becomes the inner query, while the same clause with one space is read as a
  filter, so white space there is significant. A type hint with a hyphen is not read as
  a filter either, so the hint is not arbitrary free text.
\<close>

theorem filter_forms_counterexample:
  "parseArg (Some ''linked[->outward]: project = ABC'')
     = \<lparr>mode = ''linked'', linkFilter = None, innerJql = ''linked[->outward]: project = ABC''\<rparr>
   \<and> parseArg (Some ''linked[ ->outward]: project = ABC'')
     = \<lparr>mode = ''linked'', linkFilter = Some \<lparr>typeHint = [], direction = Some Outward\<rparr>,
        innerJql = ''project = ABC''\<rparr>
   \<and> parseArg (Some ''linked[is-blocked-by]: project = ABC'')
     = \<lparr>mode = ''linked'', linkFilter = None,
        innerJql = ''linked[is-blocked-by]: project = ABC''\<rparr>"
  by code_simp

text \<open>
  Claim C4, amended. For the linked mode the parser accepts the clauses
  \<open>[ typeHint ]\<close> and \<open>[ typeHint -> direction ]\<close>, the mode word and the direction
  (\<open>inward\<close> or \<open>outward\<close>) in any case, where the type hint is a text without \<open>]\<close>
  and \<open>-\<close> that is not blank, and the inner query is a non-empty text on one line. The
  result is the linked mode with a link filter holding the trimmed type hint and the
  direction, if one is given, and the trimmed inner query; white space around the
  argument and around each of these tokens is insignificant. White space is what
  \<open>trim\<close> and the class \<open>\s\<close> take, the no-break space included, so a hint or an
  inner query given here neither starts nor ends with one.
\<close>

theorem parseArg_linked_filter:
  assumes md: "toLowerCase md = ''linked''"
    and ws: "blank w0" "blank w1" "blank w2" "blank w3" "blank w6" "blank w7" "blank w8"
    and arrow: "arrowOk arrow"
    and hint: "hint \<noteq> []" "\<forall>x\<in>set hint. x \<noteq> CHR '']'' \<and> x \<noteq> CHR ''-''"
              "\<not> isSpace (hd hint)" "\<not> isSpace (last hint)"
    and q: "q \<noteq> []" "\<not> isSpace (hd q)" "\<not> isSpace (last q)" "\<forall>x\<in>set q. \<not> isLineTerminator x"
  shows "parseArg (Some (w0 @ filterArg md w1 w2 hint w3 arrow w6 w7 q @ w8))
           = \<lparr>mode = ''linked'',
              linkFilter = Some \<lparr>typeHint = hint, direction = directionWord arrow\<rparr>,
              innerJql = q\<rparr>"
  using md ws arrow hint(2)
  by (rule parseArg_filter_general) (use hint q in simp_all)

theorem parseArg_linked_filter_witness:
  "parseArg (Some '' Linked [ Is Blocked By -> OUTWARD ]: project = ABC '')
     = \<lparr>mode = ''linked'',
        linkFilter = Some \<lparr>typeHint = ''Is Blocked By'', direction = Some Outward\<rparr>,
        innerJql = ''project = ABC''\<rparr>
   \<and> parseArg (Some ''linked[relates to]:x'')
     = \<lparr>mode = ''linked'', linkFilter = Some \<lparr>typeHint = ''relates to'', direction = None\<rparr>,
        innerJql = ''x''\<rparr>
   \<and> parseArg (Some (''linked['' @ [CHR 0xA0] @ ''bloqu'' @ [CHR 0xE9, CHR 0xA0] @ '']:''
                      @ [CHR 0xA0] @ ''x'' @ [CHR 0xA0]))
     = \<lparr>mode = ''linked'',
        linkFilter = Some \<lparr>typeHint = ''bloqu'' @ [CHR 0xE9], direction = None\<rparr>,
        innerJql = ''x''\<rparr>"
proof -
  have lw: "toLowerCase ''Linked'' = ''linked''" "toLowerCase ''linked'' = ''linked''"
    by code_simp+
  have b: "blank []" "blank '' ''" "blank [CHR 0xA0]" by (simp_all add: blank_def isSpace_def)
  have ao: "arrowOk (Some ('' '', ''OUTWARD'', '' ''))" "arrowOk None"
    by code_simp+
  have dw: "directionWord (Some ('' '', ''OUTWARD'', '' '')) = Some Outward"
    "directionWord None = None"
    by code_simp+
  have q1: "''project = ABC'' \<noteq> []" "\<not> isSpace (hd ''project = ABC'')"
    "\<not> isSpace (last ''project = ABC'')" "\<forall>x\<in>set ''project = ABC''. \<not> isLineTerminator x"
    by (simp_all add: isSpace_def isLineTerminator_def)
  have q2: "''x'' \<noteq> []" "\<not> isSpace (hd ''x'')" "\<not> isSpace (last ''x'')"
    "\<forall>x\<in>set ''x''. \<not> isLineTerminator x"
    by (simp_all add: isSpace_def isLineTerminator_def)
  have h1: "''Is Blocked By'' \<noteq> []"
    "\<forall>x\<in>set ''Is Blocked By''. x \<noteq> CHR '']'' \<and> x \<noteq> CHR ''-''"
    "\<not> isSpace (hd ''Is Blocked By'')" "\<not> isSpace (last ''Is Blocked By'')"
    by (simp_all add: isSpace_def)
  have h2: "''relates to'' \<noteq> []"
    "\<forall>x\<in>set ''relates to''. x \<noteq> CHR '']'' \<and> x \<noteq> CHR ''-''"
    "\<not> isSpace (hd ''relates to'')" "\<not> isSpace (last ''relates to'')"
    by (simp_all add: isSpace_def)
  have h3: "''bloqu'' @ [CHR 0xE9] \<noteq> []"
    "\<forall>x\<in>set (''bloqu'' @ [CHR 0xE9]). x \<noteq> CHR '']'' \<and> x \<noteq> CHR ''-''"
    "\<not> isSpace (hd (''bloqu'' @ [CHR 0xE9]))" "\<not> isSpace (last (''bloqu'' @ [CHR 0xE9]))"
    by (simp_all add: isSpace_def)
  note t1 = parseArg_linked_filter[OF lw(1) b(2) b(2) b(2) b(2) b(1) b(2) b(2) ao(1) h1 q1]
  note t2 = parseArg_linked_filter[OF lw(2) b(1) b(1) b(1) b(1) b(1) b(1) b(1) ao(2) h2 q2]
  note t3 = parseArg_linked_filter[OF lw(2) b(1) b(1) b(3) b(3) b(1) b(3) b(3) ao(2) h3 q2]
  show ?thesis
    using t1 t2 t3 by (simp add: filterArg_def arrowText_def dw)
qed

end
